theory Spec2Isabelle
  imports Complex_Main
begin

section \<open>Python values and exceptions\<close>

text \<open>
  The values that travel through the reader and the server are the values
  \<^verbatim>\<open>json.loads\<close> produces (the flat encoding only ever produces integers); a
  dictionary is the list of its items.
  Strings are lists of characters with code points below 256.  A float is the
  real number it denotes; infinities and NaN are outside this development.
\<close>

datatype json =
    JNull
  | JBool bool
  | JInt int
  | JFloat real
  | JStr string
  | JList "json list"
  | JObj "(string \<times> json) list"

datatype error =
    TypeError
  | ValueError
  | ZeroDivisionError
  | AttributeError
  | OSError
  | OverflowError

text \<open>Sequencing of computations that may raise: the first exception wins.\<close>

definition bind_err :: "error + 'a \<Rightarrow> ('a \<Rightarrow> error + 'b) \<Rightarrow> error + 'b" where
  "bind_err m f = (case m of Inl e \<Rightarrow> Inl e | Inr x \<Rightarrow> f x)"

subsection \<open>Double precision\<close>

text \<open>
  A Python float is an IEEE 754 double: a number \<open>m * 2 ^ e\<close> with an integer \<open>m\<close>
  of magnitude below \<open>2 ^ 53\<close> and \<open>- 1074 \<le> e \<le> 971\<close>.  \<open>double_of x\<close> is the
  double nearest to the real number \<open>x\<close>, the one with the even \<open>m\<close> when two are
  equally near: \<open>x\<close> is divided by the weight of the last of the 53 binary digits
  that start at its leading digit (\<open>2 ^ - 1074\<close> at least), rounded to an integer,
  and multiplied back.  The exponent is not bounded above here; a number of
  magnitude \<open>2 ^ 1024 - 2 ^ 970\<close> or more has no nearest double, and the operations
  below test for it before they round.
\<close>

definition DBL_OVERFLOW :: real where
  "DBL_OVERFLOW = 2 ^ 1024 - 2 ^ 970"

definition round_half_even :: "real \<Rightarrow> int" where
  "round_half_even q =
     (let n = \<lfloor>q\<rfloor> in
      if q - of_int n < 1 / 2 then n
      else if 1 / 2 < q - of_int n then n + 1
      else if even n then n else n + 1)"

definition ulp_exponent :: "real \<Rightarrow> int" where
  "ulp_exponent x = max (\<lfloor>log 2 \<bar>x\<bar>\<rfloor> - 52) (- 1074)"

definition double_of :: "real \<Rightarrow> real" where
  "double_of x =
     (if x = 0 then 0
      else of_int (round_half_even (x * 2 powr - of_int (ulp_exponent x))) *
           2 powr of_int (ulp_exponent x))"

text \<open>
  The conversion of an integer to a float, as \<^verbatim>\<open>/\<close> performs it on an integer
  operand when the other operand is a float: the nearest double, or
  \<^verbatim>\<open>OverflowError\<close> (int too large to convert to float).
\<close>

definition int_to_float :: "int \<Rightarrow> error + real" where
  "int_to_float n =
     (if DBL_OVERFLOW \<le> \<bar>of_int n\<bar> then Inl OverflowError else Inr (double_of (of_int n)))"

text \<open>
  The quotient of two floats is the double nearest to the quotient of the two
  numbers; a zero divisor raises \<^verbatim>\<open>ZeroDivisionError\<close>.  The divisors in this
  program are 1000, 16384 and 131, so that a quotient never leaves the range of the
  doubles.
\<close>

definition float_truediv :: "real \<Rightarrow> real \<Rightarrow> error + real" where
  "float_truediv a b = (if b = 0 then Inl ZeroDivisionError else Inr (double_of (a / b)))"

text \<open>
  The quotient of two integers is rounded once, from the exact quotient; it raises
  \<^verbatim>\<open>OverflowError\<close> (integer division result too large for a float) when no
  double is nearest to it.
\<close>

definition int_truediv :: "int \<Rightarrow> int \<Rightarrow> error + real" where
  "int_truediv n d =
     (if d = 0 then Inl ZeroDivisionError
      else if DBL_OVERFLOW \<le> \<bar>of_int n / of_int d\<bar> then Inl OverflowError
      else Inr (double_of (of_int n / of_int d)))"

text \<open>
  \<^verbatim>\<open>x / c\<close> for a float \<open>c\<close>: an integer is converted to a float first (which may
  raise), a boolean counts as the integer 0 or 1, a float divides as it is, every
  other value raises \<^verbatim>\<open>TypeError\<close>.
\<close>

fun py_truediv :: "json \<Rightarrow> real \<Rightarrow> error + real" where
  "py_truediv (JInt n) c = bind_err (int_to_float n) (\<lambda>a. float_truediv a c)"
| "py_truediv (JBool b) c = float_truediv (if b then 1 else 0) c"
| "py_truediv (JFloat x) c = float_truediv x c"
| "py_truediv _ c = Inl TypeError"

text \<open>\<^verbatim>\<open>x / d\<close> for an integer \<open>d\<close>: here a float operand converts the integer.\<close>

fun py_truediv_int :: "json \<Rightarrow> int \<Rightarrow> error + real" where
  "py_truediv_int (JInt n) d = int_truediv n d"
| "py_truediv_int (JBool b) d = int_truediv (if b then 1 else 0) d"
| "py_truediv_int (JFloat x) d = bind_err (int_to_float d) (\<lambda>b. float_truediv x b)"
| "py_truediv_int _ d = Inl TypeError"

text \<open>
  \<^verbatim>\<open>x ** 2\<close> on a float raises \<^verbatim>\<open>OverflowError\<close> when the square leaves the range of
  the doubles.
\<close>

definition pow2_raises :: "real \<Rightarrow> bool" where
  "pow2_raises x \<longleftrightarrow> DBL_OVERFLOW \<le> x\<^sup>2"

text \<open>\<^verbatim>\<open>d.get(key, default)\<close>; on a value that is no dictionary the attribute is missing.\<close>

fun dict_get :: "json \<Rightarrow> string \<Rightarrow> json \<Rightarrow> error + json" where
  "dict_get (JObj kvs) k d = Inr (case map_of kvs k of None \<Rightarrow> d | Some v \<Rightarrow> v)"
| "dict_get _ k d = Inl AttributeError"

section \<open>The reader: \<^verbatim>\<open>MPU6050Reader\<close> of serial\_reader.py\<close>

subsection \<open>Configuration set by the constructor\<close>

definition ACCEL_SCALE :: real where
  "ACCEL_SCALE = 16384"

definition GYRO_SCALE :: real where
  "GYRO_SCALE = 131"

definition buffer_size :: nat where
  "buffer_size = 256"

definition sampling_rate :: real where
  "sampling_rate = 20"

definition fft_window :: nat where
  "fft_window = 128"

subsection \<open>Unit conversion\<close>

definition convert_to_g :: "json \<Rightarrow> error + real" where
  "convert_to_g raw_value = py_truediv raw_value ACCEL_SCALE"

definition convert_to_dps :: "json \<Rightarrow> error + real" where
  "convert_to_dps raw_value = py_truediv raw_value GYRO_SCALE"

subsection \<open>Decoding one line: \<^verbatim>\<open>parse_data\<close>\<close>

record raw_sample =
  timestamp_ms :: json
  ax_raw :: json
  ay_raw :: json
  az_raw :: json
  gx_raw :: json
  gy_raw :: json
  gz_raw :: json

text \<open>\<^verbatim>\<open>line.startswith('{')\<close>\<close>

fun startswith_brace :: "string \<Rightarrow> bool" where
  "startswith_brace [] = False"
| "startswith_brace (c # cs) = (c = CHR ''{'')"

text \<open>
  \<^verbatim>\<open>str.isspace\<close> on one character: the code points 9 to 13, 28 to 32, 133 and 160
  are the white space below 256.
\<close>

definition is_space :: "char \<Rightarrow> bool" where
  "is_space c = (let n = (of_char c :: nat) in
     (9 \<le> n \<and> n \<le> 13) \<or> (28 \<le> n \<and> n \<le> 32) \<or> n = 133 \<or> n = 160)"

text \<open>\<^verbatim>\<open>str.strip()\<close>\<close>

definition strip :: "string \<Rightarrow> string" where
  "strip s = rev (dropWhile is_space (rev (dropWhile is_space s)))"

text \<open>\<^verbatim>\<open>str.split(sep)\<close> for a separator of one character: never an empty list.\<close>

fun split_on :: "char \<Rightarrow> string \<Rightarrow> string list" where
  "split_on sep [] = [[]]"
| "split_on sep (c # cs) =
     (if c = sep then [] # split_on sep cs
      else (case split_on sep cs of
              [] \<Rightarrow> [[c]]
            | p # ps \<Rightarrow> (c # p) # ps))"

text \<open>
  The structured branch of \<^verbatim>\<open>parse_data\<close>.  \<open>loads\<close> stands for \<^verbatim>\<open>json.loads\<close>
  and \<open>now\<close> for \<^verbatim>\<open>int(time.time() * 1000)\<close>; every \<^verbatim>\<open>get\<close> is evaluated in
  the order of the dictionary display.
\<close>

definition parse_json ::
  "(string \<Rightarrow> error + json) \<Rightarrow> int \<Rightarrow> string \<Rightarrow> error + raw_sample option" where
  "parse_json loads now line =
     bind_err (loads line) (\<lambda>data.
     bind_err (dict_get data ''timestamp_ms'' (JInt now)) (\<lambda>t.
     bind_err (dict_get data ''ax'' (JInt 0)) (\<lambda>ax.
     bind_err (dict_get data ''ay'' (JInt 0)) (\<lambda>ay.
     bind_err (dict_get data ''az'' (JInt 0)) (\<lambda>az.
     bind_err (dict_get data ''gx'' (JInt 0)) (\<lambda>gx.
     bind_err (dict_get data ''gy'' (JInt 0)) (\<lambda>gy.
     bind_err (dict_get data ''gz'' (JInt 0)) (\<lambda>gz.
       Inr (Some \<lparr>timestamp_ms = t, ax_raw = ax, ay_raw = ay, az_raw = az,
                  gx_raw = gx, gy_raw = gy, gz_raw = gz\<rparr>)))))))))"

text \<open>
  The flat branch.  \<open>py_int\<close> stands for the built-in \<^verbatim>\<open>int\<close> on a string, which
  raises \<^verbatim>\<open>ValueError\<close> on text that is no integer.  With fewer than 7 parts the
  branch falls through to the final \<^verbatim>\<open>return None\<close>.
\<close>

definition parse_flat :: "(string \<Rightarrow> error + int) \<Rightarrow> string \<Rightarrow> error + raw_sample option" where
  "parse_flat py_int line =
     (let parts = split_on CHR '','' (strip line) in
      if length parts \<ge> 7 then
        bind_err (py_int (parts ! 0)) (\<lambda>t.
        bind_err (py_int (parts ! 1)) (\<lambda>ax.
        bind_err (py_int (parts ! 2)) (\<lambda>ay.
        bind_err (py_int (parts ! 3)) (\<lambda>az.
        bind_err (py_int (parts ! 4)) (\<lambda>gx.
        bind_err (py_int (parts ! 5)) (\<lambda>gy.
        bind_err (py_int (parts ! 6)) (\<lambda>gz.
          Inr (Some \<lparr>timestamp_ms = JInt t, ax_raw = JInt ax, ay_raw = JInt ay,
                     az_raw = JInt az, gx_raw = JInt gx, gy_raw = JInt gy,
                     gz_raw = JInt gz\<rparr>))))))))
      else Inr None)"

text \<open>The body of the \<^verbatim>\<open>try\<close> block.\<close>

definition parse_data_body ::
  "(string \<Rightarrow> error + json) \<Rightarrow> (string \<Rightarrow> error + int) \<Rightarrow> int \<Rightarrow> string
     \<Rightarrow> error + raw_sample option" where
  "parse_data_body loads py_int now line =
     (if startswith_brace line then parse_json loads now line
      else parse_flat py_int line)"

text \<open>
  \<^verbatim>\<open>parse_data\<close>: the bare \<^verbatim>\<open>except: pass\<close> swallows every exception of the body
  and control reaches \<^verbatim>\<open>return None\<close>.
\<close>

definition parse_data ::
  "(string \<Rightarrow> error + json) \<Rightarrow> (string \<Rightarrow> error + int) \<Rightarrow> int \<Rightarrow> string
     \<Rightarrow> error + raw_sample option" where
  "parse_data loads py_int now line =
     (case parse_data_body loads py_int now line of
        Inl e \<Rightarrow> Inr None
      | Inr r \<Rightarrow> Inr r)"

subsection \<open>Numerical helpers of numpy and scipy\<close>

text \<open>
  The statistics that become values of the frame (means, root mean squares, the
  spectrum) are computed over the real numbers: what numpy returns for them is the
  value below up to the rounding of its double arithmetic.  \<^verbatim>\<open>np.mean\<close> and
  \<^verbatim>\<open>np.std\<close> (population standard deviation) of a sequence:
\<close>

definition np_mean :: "real list \<Rightarrow> real" where
  "np_mean xs = sum_list xs / real (length xs)"

definition np_std :: "real list \<Rightarrow> real" where
  "np_std xs = sqrt (np_mean (map (\<lambda>x. (x - np_mean xs)\<^sup>2) xs))"

text \<open>
  Where a statistic decides a branch, its rounding decides with it.  The doubles
  that \<^verbatim>\<open>np.mean\<close> and \<^verbatim>\<open>np.std\<close> return for a sequence of doubles depend on
  the order in which numpy adds; they are parameters of the model, like the other
  functions of the library.  Only \<^verbatim>\<open>detect_peaks\<close> branches on them.
\<close>

record numpy =
  mean64 :: "real list \<Rightarrow> real"
  std64 :: "real list \<Rightarrow> real"

text \<open>The last \<open>n\<close> elements of a list: the slice \<^verbatim>\<open>xs[-n:]\<close> for positive \<open>n\<close>.\<close>

definition lastn :: "nat \<Rightarrow> 'a list \<Rightarrow> 'a list" where
  "lastn n xs = drop (length xs - n) xs"

text \<open>The built-in \<^verbatim>\<open>max\<close> of a list; called on non-empty lists only.\<close>

fun py_max :: "real list \<Rightarrow> real" where
  "py_max [] = 0"
| "py_max (x # xs) = fold max xs x"

text \<open>
  \<^verbatim>\<open>scipy.signal.windows.hamming(M)\<close>, the symmetric window
  \<open>w n = 0.54 - 0.46 cos (2 \<pi> n / (M - 1))\<close>.
\<close>

definition hamming :: "nat \<Rightarrow> real list" where
  "hamming M =
     (if M \<le> 1 then replicate M 1
      else map (\<lambda>n. 0.54 - 0.46 * cos (2 * pi * real n / real (M - 1))) [0..<M])"

text \<open>
  \<^verbatim>\<open>np.fft.rfft\<close>: the bins \<open>0 .. n div 2\<close> of the discrete Fourier transform of a
  real sequence of length \<open>n\<close>, and \<^verbatim>\<open>np.fft.rfftfreq(n, d)\<close>, their frequencies.
\<close>

definition rfft :: "real list \<Rightarrow> complex list" where
  "rfft a =
     map (\<lambda>k. sum_list (map (\<lambda>m. complex_of_real (a ! m) *
                 cis (- (2 * pi * real m * real k / real (length a)))) [0..<length a]))
         [0..<length a div 2 + 1]"

definition rfftfreq :: "nat \<Rightarrow> real \<Rightarrow> real list" where
  "rfftfreq n d = map (\<lambda>k. real k * (1 / (real n * d))) [0..<n div 2 + 1]"

text \<open>
  \<^verbatim>\<open>scipy.signal.find_peaks(x, height=h)[0]\<close>.  A peak is a sample whose two direct
  neighbours are smaller; a flat peak counts once, at its middle sample (rounded
  down); the first and the last sample are never peaks.  The scan looks at every
  index \<open>i\<close> that rises above its left neighbour, runs ahead over the samples equal
  to \<open>x ! i\<close> (stopping at the last index at the latest) and reports the middle of
  that run when the sample that ends it is smaller.  Of these peaks the ones of
  height at least \<open>h\<close> are kept.
\<close>

definition plateau_end :: "real list \<Rightarrow> nat \<Rightarrow> nat" where
  "plateau_end x i =
     i + 1 + length (takeWhile (\<lambda>v. v = x ! i) (take (length x - 1 - (i + 1)) (drop (i + 1) x)))"

definition local_maxima_1d :: "real list \<Rightarrow> nat list" where
  "local_maxima_1d x =
     concat (map (\<lambda>i. if x ! (i - 1) < x ! i \<and> x ! plateau_end x i < x ! i
                       then [(i + (plateau_end x i - 1)) div 2] else [])
                 [1..<length x - 1])"

definition find_peaks :: "real list \<Rightarrow> real \<Rightarrow> nat list" where
  "find_peaks x height = filter (\<lambda>p. height \<le> x ! p) (local_maxima_1d x)"

subsection \<open>Analysis functions of the reader\<close>

text \<open>
  \<^verbatim>\<open>compute_fft\<close>.  The slice \<^verbatim>\<open>signal_data[-fft_window:]\<close> and the window have the
  same length, so the element-wise product is a plain zip.
\<close>

definition compute_fft :: "real list \<Rightarrow> real list \<times> real list" where
  "compute_fft signal_data =
     (if length signal_data < fft_window then ([], [])
      else
        (let window = hamming fft_window;
             windowed_data = map2 (*) (lastn fft_window signal_data) window;
             fft_result = rfft windowed_data;
             fft_magnitude = map cmod fft_result;
             freqs = rfftfreq fft_window (1 / sampling_rate)
         in (freqs, fft_magnitude)))"

definition compute_rms :: "real list \<Rightarrow> real" where
  "compute_rms buffer =
     (if buffer = [] then 0 else sqrt (np_mean (map (\<lambda>x. x\<^sup>2) buffer)))"

text \<open>
  \<^verbatim>\<open>detect_peaks\<close>: the loop over \<^verbatim>\<open>range(1, len(buffer) - 1)\<close> appends the accepted
  indices to \<^verbatim>\<open>peaks\<close>.  \<^verbatim>\<open>mean_val\<close> and \<^verbatim>\<open>std_val\<close> are the doubles numpy
  returns; the product and the sum of the acceptance test are operations on doubles,
  each rounded to the nearest double.
\<close>

definition detect_peaks_step :: "real list \<Rightarrow> real \<Rightarrow> real \<Rightarrow> real \<Rightarrow> nat \<Rightarrow> nat list \<Rightarrow> nat list" where
  "detect_peaks_step buffer mean_val std_val threshold i peaks =
     (if buffer ! i > buffer ! (i - 1) \<and> buffer ! i > buffer ! (i + 1) then
        (if buffer ! i > double_of (mean_val + double_of (threshold * std_val))
         then peaks @ [i] else peaks)
      else peaks)"

definition detect_peaks :: "numpy \<Rightarrow> real list \<Rightarrow> real \<Rightarrow> nat list" where
  "detect_peaks np buffer threshold =
     (if length buffer < 3 then []
      else
        (let mean_val = mean64 np buffer;
             std_val = std64 np buffer
         in fold (detect_peaks_step buffer mean_val std_val threshold)
                 [1..<length buffer - 1] []))"

subsection \<open>Processing one sample: \<^verbatim>\<open>process_data\<close>\<close>

text \<open>The window buffers of the reader; the constructor leaves them empty.\<close>

record reader =
  ax_buffer :: "real list"
  ay_buffer :: "real list"
  az_buffer :: "real list"
  timestamps :: "json list"

definition reader_init :: reader where
  "reader_init = \<lparr>ax_buffer = [], ay_buffer = [], az_buffer = [], timestamps = []\<rparr>"

text \<open>
  The dictionary \<^verbatim>\<open>processed\<close> as the display at the head of \<^verbatim>\<open>process_data\<close>
  builds it, and the frame the function returns: the keys that are set only under a
  condition are optional fields.
\<close>

record physical = raw_sample +
  date :: string
  time :: string
  ax_g :: real
  ay_g :: real
  az_g :: real
  gx_dps :: real
  gy_dps :: real
  gz_dps :: real

record frame = physical +
  magnitude :: real
  mean_ax :: "real option"
  mean_ay :: "real option"
  mean_az :: "real option"
  mean_magnitude :: "real option"
  rms_ax :: "real option"
  rms_ay :: "real option"
  rms_az :: "real option"
  rms_magnitude :: "real option"
  fft_freq :: "real list option"
  fft_amp :: "real list option"
  fft_peaks :: "(real \<times> real) list option"
  peaks_detected :: "bool option"
  peak_values :: "real list option"

text \<open>
  The dictionary display.  \<open>strftime\<close> stands for
  \<^verbatim>\<open>datetime.fromtimestamp(t).strftime(fmt)\<close>, which raises on a time stamp the
  platform cannot represent.  The time stamp is divided by the integer 1000, the
  counts by the two scales.  Python evaluates the entries in order, so the first
  entry that raises decides the exception; nothing has been appended to the buffers
  at that point.
\<close>

definition mk_processed :: "(real \<Rightarrow> string \<Rightarrow> error + string) \<Rightarrow> raw_sample \<Rightarrow> error + physical" where
  "mk_processed strftime raw_data =
     bind_err (py_truediv_int (timestamp_ms raw_data) 1000) (\<lambda>t1.
     bind_err (strftime t1 ''%Y-%m-%d'') (\<lambda>d.
     bind_err (py_truediv_int (timestamp_ms raw_data) 1000) (\<lambda>t2.
     bind_err (strftime t2 ''%H:%M:%S.%f'') (\<lambda>tm.
     bind_err (convert_to_g (ax_raw raw_data)) (\<lambda>ax.
     bind_err (convert_to_g (ay_raw raw_data)) (\<lambda>ay.
     bind_err (convert_to_g (az_raw raw_data)) (\<lambda>az.
     bind_err (convert_to_dps (gx_raw raw_data)) (\<lambda>gx.
     bind_err (convert_to_dps (gy_raw raw_data)) (\<lambda>gy.
     bind_err (convert_to_dps (gz_raw raw_data)) (\<lambda>gz.
       Inr \<lparr>timestamp_ms = timestamp_ms raw_data,
            ax_raw = ax_raw raw_data, ay_raw = ay_raw raw_data, az_raw = az_raw raw_data,
            gx_raw = gx_raw raw_data, gy_raw = gy_raw raw_data, gz_raw = gz_raw raw_data,
            date = d, time = take (length tm - 3) tm,
            ax_g = ax, ay_g = ay, az_g = az,
            gx_dps = gx, gy_dps = gy, gz_dps = gz\<rparr>))))))))))"

text \<open>
  The four appends and, when the window has outgrown \<^verbatim>\<open>buffer_size\<close>, the four
  \<^verbatim>\<open>pop(0)\<close>.  Every buffer has just received an element, so no \<^verbatim>\<open>pop\<close> meets an
  empty list.
\<close>

definition window_push :: "reader \<Rightarrow> physical \<Rightarrow> reader" where
  "window_push st processed =
     (let st1 = st\<lparr>ax_buffer := ax_buffer st @ [ax_g processed],
                    ay_buffer := ay_buffer st @ [ay_g processed],
                    az_buffer := az_buffer st @ [az_g processed],
                    timestamps := timestamps st @ [timestamp_ms processed]\<rparr>
      in if length (ax_buffer st1) > buffer_size
         then st1\<lparr>ax_buffer := tl (ax_buffer st1),
                  ay_buffer := tl (ay_buffer st1),
                  az_buffer := tl (az_buffer st1),
                  timestamps := tl (timestamps st1)\<rparr>
         else st1)"

text \<open>The per-sample magnitudes of the window: the comprehension over the zipped buffers.\<close>

definition window_magnitudes :: "reader \<Rightarrow> real list" where
  "window_magnitudes st =
     map (\<lambda>(x, y, z). sqrt (x\<^sup>2 + y\<^sup>2 + z\<^sup>2))
         (zip (ax_buffer st) (zip (ay_buffer st) (az_buffer st)))"

text \<open>
  The spectral peaks: \<^verbatim>\<open>find_peaks\<close> runs on \<^verbatim>\<open>fft_amp[1:]\<close> with the height
  \<^verbatim>\<open>max(fft_amp) * 0.1\<close>, and index \<open>i\<close> of the slice is bin \<open>i + 1\<close>.
\<close>

definition extract_fft_peaks :: "real list \<Rightarrow> real list \<Rightarrow> (real \<times> real) list option" where
  "extract_fft_peaks freq amp =
     (if amp \<noteq> [] \<and> length amp > 5 then
        (let peak_indices = find_peaks (tl amp) (py_max amp * 0.1)
         in Some (map (\<lambda>i. (freq ! (i + 1), amp ! (i + 1))) peak_indices))
      else None)"

text \<open>
  The squares \<^verbatim>\<open>x**2\<close> are taken on Python floats: first the three of the new
  sample, for \<^verbatim>\<open>magnitude\<close>, then those of every sample of the window, in the
  comprehensions over the zipped buffers.  One of them that leaves the range of the
  doubles raises \<^verbatim>\<open>OverflowError\<close>; the sample has been pushed by then.
\<close>

definition squares_overflow :: "reader \<Rightarrow> physical \<Rightarrow> bool" where
  "squares_overflow st processed \<longleftrightarrow>
     pow2_raises (ax_g processed) \<or> pow2_raises (ay_g processed) \<or>
     pow2_raises (az_g processed) \<or>
     list_ex (\<lambda>(x, y, z). pow2_raises x \<or> pow2_raises y \<or> pow2_raises z)
             (zip (ax_buffer st) (zip (ay_buffer st) (az_buffer st)))"

text \<open>The statistics computed on the window after the push.\<close>

definition analyse :: "numpy \<Rightarrow> reader \<Rightarrow> physical \<Rightarrow> frame" where
  "analyse np st processed =
     (let n = length (ax_buffer st);
          spectrum = compute_fft (ax_buffer st);
          peaks = detect_peaks np (ax_buffer st) 2
      in physical.extend processed
           \<lparr>magnitude = sqrt ((ax_g processed)\<^sup>2 + (ay_g processed)\<^sup>2 + (az_g processed)\<^sup>2),
            mean_ax = (if ax_buffer st \<noteq> [] then Some (np_mean (ax_buffer st)) else None),
            mean_ay = (if ax_buffer st \<noteq> [] then Some (np_mean (ay_buffer st)) else None),
            mean_az = (if ax_buffer st \<noteq> [] then Some (np_mean (az_buffer st)) else None),
            mean_magnitude =
              (if ax_buffer st \<noteq> [] then Some (np_mean (window_magnitudes st)) else None),
            rms_ax = (if n \<ge> 10 then Some (compute_rms (ax_buffer st)) else None),
            rms_ay = (if n \<ge> 10 then Some (compute_rms (ay_buffer st)) else None),
            rms_az = (if n \<ge> 10 then Some (compute_rms (az_buffer st)) else None),
            rms_magnitude =
              (if n \<ge> 10 then Some (compute_rms (window_magnitudes st)) else None),
            fft_freq = (if n \<ge> fft_window then Some (fst spectrum) else None),
            fft_amp = (if n \<ge> fft_window then Some (snd spectrum) else None),
            fft_peaks =
              (if n \<ge> fft_window then extract_fft_peaks (fst spectrum) (snd spectrum)
               else None),
            peaks_detected = (if n \<ge> 20 \<and> peaks \<noteq> [] then Some True else None),
            peak_values =
              (if n \<ge> 20 \<and> peaks \<noteq> []
               then Some (map (\<lambda>i. ax_buffer st ! i) (lastn 3 peaks)) else None)\<rparr>)"

text \<open>
  \<^verbatim>\<open>process_data\<close>: the new state of the reader and either the exception raised or
  the frame returned.
\<close>

definition process_data ::
  "(real \<Rightarrow> string \<Rightarrow> error + string) \<Rightarrow> numpy \<Rightarrow> reader \<Rightarrow> raw_sample
     \<Rightarrow> reader \<times> (error + frame)" where
  "process_data strftime np st raw_data =
     (case mk_processed strftime raw_data of
        Inl e \<Rightarrow> (st, Inl e)
      | Inr processed \<Rightarrow>
          (let st' = window_push st processed
           in if squares_overflow st' processed then (st', Inl OverflowError)
              else (st', Inr (analyse np st' processed))))"

text \<open>A sequence of calls on the same reader, as the loop of \<^verbatim>\<open>read_serial\<close> makes them.\<close>

fun process_all ::
  "(real \<Rightarrow> string \<Rightarrow> error + string) \<Rightarrow> numpy \<Rightarrow> reader \<Rightarrow> raw_sample list \<Rightarrow> reader" where
  "process_all strftime np st [] = st"
| "process_all strftime np st (r # rs) =
     process_all strftime np (fst (process_data strftime np st r)) rs"

section \<open>The server: server/server.py\<close>

subsection \<open>Broadcast to the dashboard clients\<close>

text \<open>
  \<^verbatim>\<open>ui_clients\<close> is a set of connections.  A connection is added when a dashboard
  client connects and discarded when it disconnects.
\<close>

definition register :: "'c \<Rightarrow> 'c set \<Rightarrow> 'c set" where
  "register websocket clients = insert websocket clients"

definition unregister :: "'c \<Rightarrow> 'c set \<Rightarrow> 'c set" where
  "unregister websocket clients = clients - {websocket}"

text \<open>
  The handlers are coroutines of one event loop and no lock guards \<^verbatim>\<open>ui_clients\<close>.
  A handler runs until it awaits; the loop
  \<^verbatim>\<open>for client in set(ui_clients)\<close> awaits in every round, at
  \<^verbatim>\<open>await client.send(packet)\<close>, and while it is suspended there other handlers
  run: dashboard clients connect and disconnect, and messages of other
  \<^verbatim>\<open>/serial\<close> connections start their own loops.

  The state of the hub: the set, the state of the network, and for every
  \<^verbatim>\<open>/serial\<close> handler that is suspended in its loop the packet, the clients of its
  copy of the set that are still to be served (the first of them is the one whose
  \<^verbatim>\<open>send\<close> is awaited) and its list \<^verbatim>\<open>dead\<close>.  Handlers are numbered.
\<close>

record ('c, 'p, 'w) hub =
  ui_clients :: "'c set"
  network :: 'w
  suspended :: "nat \<Rightarrow> ('p \<times> 'c list \<times> 'c list) option"

text \<open>
  What the event loop runs between two awaits.  \<open>Connect\<close> and \<open>Disconnect\<close>: a
  dashboard handler adds its connection, or discards it in its \<^verbatim>\<open>finally\<close>.
  \<open>Message b packet\<close>: handler \<open>b\<close> receives a message, copies the set and calls
  \<^verbatim>\<open>send\<close> for the first client; with an empty copy the loop is over at once and
  nothing is dead.  A handler that is suspended in its loop takes no message.
  \<open>Resume b\<close>: the \<^verbatim>\<open>send\<close> that handler \<open>b\<close> awaits has returned or raised; the
  client is appended to \<^verbatim>\<open>dead\<close> if it raised, and either \<^verbatim>\<open>send\<close> is called for
  the next client or, after the last one, every dead client is discarded from the
  set.

  \<open>send c packet w\<close> stands for \<^verbatim>\<open>await client.send(packet)\<close> in the state \<open>w\<close> of
  the network: it returns whether the call returned (\<open>True\<close>) or raised, and the new
  state.  \<open>order\<close> gives the order in which Python iterates over a set.  A step
  returns the new state and the delivery attempt it completed, if any: the handler,
  the client, the packet and the outcome.
\<close>

datatype ('c, 'p) hub_event = Connect 'c | Disconnect 'c | Message nat 'p | Resume nat

fun hub_step ::
  "('c \<Rightarrow> 'p \<Rightarrow> 'w \<Rightarrow> bool \<times> 'w) \<Rightarrow> ('c set \<Rightarrow> 'c list) \<Rightarrow> ('c, 'p, 'w) hub
     \<Rightarrow> ('c, 'p) hub_event \<Rightarrow> ('c, 'p, 'w) hub \<times> (nat \<times> 'c \<times> 'p \<times> bool) list" where
  "hub_step send order h (Connect c) = (h\<lparr>ui_clients := register c (ui_clients h)\<rparr>, [])"
| "hub_step send order h (Disconnect c) = (h\<lparr>ui_clients := unregister c (ui_clients h)\<rparr>, [])"
| "hub_step send order h (Message b packet) =
     (if suspended h b \<noteq> None \<or> order (ui_clients h) = [] then (h, [])
      else (h\<lparr>suspended := (suspended h)(b \<mapsto> (packet, order (ui_clients h), []))\<rparr>, []))"
| "hub_step send order h (Resume b) =
     (case suspended h b of
        None \<Rightarrow> (h, [])
      | Some (packet, [], dead) \<Rightarrow> (h\<lparr>suspended := (suspended h)(b := None)\<rparr>, [])
      | Some (packet, client # rest, dead) \<Rightarrow>
          (case send client packet (network h) of
             (ok, w) \<Rightarrow>
               (let dead' = (if ok then dead else dead @ [client])
                in if rest = [] then
                     (h\<lparr>ui_clients := fold unregister dead' (ui_clients h), network := w,
                        suspended := (suspended h)(b := None)\<rparr>,
                      [(b, client, packet, ok)])
                   else
                     (h\<lparr>network := w, suspended := (suspended h)(b \<mapsto> (packet, rest, dead'))\<rparr>,
                      [(b, client, packet, ok)]))))"

text \<open>
  A schedule is the sequence of these steps as the event loop happens to take them;
  \<open>hub_exec\<close> returns the final state and the delivery attempts in the order in
  which they completed.
\<close>

fun hub_exec ::
  "('c \<Rightarrow> 'p \<Rightarrow> 'w \<Rightarrow> bool \<times> 'w) \<Rightarrow> ('c set \<Rightarrow> 'c list) \<Rightarrow> ('c, 'p, 'w) hub
     \<Rightarrow> ('c, 'p) hub_event list \<Rightarrow> ('c, 'p, 'w) hub \<times> (nat \<times> 'c \<times> 'p \<times> bool) list" where
  "hub_exec send order h [] = (h, [])"
| "hub_exec send order h (ev # evs) =
     (case hub_step send order h ev of
        (h1, log1) \<Rightarrow>
          (case hub_exec send order h1 evs of
             (h2, log2) \<Rightarrow> (h2, log1 @ log2)))"

subsection \<open>Recording to a CSV file\<close>

text \<open>
  The module-level state of the recorder and the files it has written.  A file is
  the list of the rows written to it; an open file and the writer on it are known by
  the path of the file.  Writing to an open file and flushing it are taken to
  succeed.
\<close>

record server =
  recording :: bool
  current_session :: "(string \<times> string) list"
  csv_file :: "string option"
  csv_writer :: "string option"
  files :: "string \<Rightarrow> json list list option"

definition RECORDINGS_DIR :: string where
  "RECORDINGS_DIR = ''../recordings''"

text \<open>\<^verbatim>\<open>str.isalnum\<close> on one character with a code point below 256.\<close>

definition isalnum :: "char \<Rightarrow> bool" where
  "isalnum c = (let n = (of_char c :: nat) in
     (48 \<le> n \<and> n \<le> 57) \<or> (65 \<le> n \<and> n \<le> 90) \<or> (97 \<le> n \<and> n \<le> 122) \<or>
     n = 170 \<or> n = 178 \<or> n = 179 \<or> n = 181 \<or> n = 185 \<or> n = 186 \<or>
     n = 188 \<or> n = 189 \<or> n = 190 \<or>
     (192 \<le> n \<and> n \<le> 214) \<or> (216 \<le> n \<and> n \<le> 246) \<or> (248 \<le> n \<and> n \<le> 255))"

definition safe_type :: "string \<Rightarrow> string" where
  "safe_type reading_type =
     map (\<lambda>c. if isalnum c \<or> c \<in> set ''-_'' then c else CHR ''_'') reading_type"

text \<open>\<^verbatim>\<open>os.path.join\<close> of two components, with the separator \<^verbatim>\<open>/\<close>.\<close>

definition path_join :: "string \<Rightarrow> string \<Rightarrow> string" where
  "path_join a b =
     (if b \<noteq> [] \<and> hd b = CHR ''/'' then b
      else if a = [] \<or> last a = CHR ''/'' then a @ b
      else a @ ''/'' @ b)"

definition csv_header :: "json list" where
  "csv_header =
     [JStr ''date'', JStr ''timestamp'', JStr ''timestamp_ms'',
      JStr ''ax_g'', JStr ''ay_g'', JStr ''az_g'',
      JStr ''gx_dps'', JStr ''gy_dps'', JStr ''gz_dps'',
      JStr ''magnitude'', JStr ''mean_magnitude'', JStr ''rms_magnitude'']"

text \<open>
  \<^verbatim>\<open>start_recording\<close>.  \<open>payload\<close> is the request body, \<open>today\<close>, \<open>ts\<close> and \<open>started\<close> are
  the three readings of the clock (\<^verbatim>\<open>%Y-%m-%d\<close>, \<^verbatim>\<open>%Y%m%d_%H%M%S\<close> and the ISO
  format).  The date of the payload goes into the file name as it is.

  \<open>can_open path\<close> tells whether opening the file at \<open>path\<close> for writing
  succeeds.  \<^verbatim>\<open>open\<close> is the first statement under the lock: when it raises (the
  path names a directory that does not exist, or the file cannot be written) the
  request fails and nothing has changed.  When it succeeds the file is created or
  emptied; the file of an earlier session stays as it is.  The path is returned to
  the client.
\<close>

definition session_path :: "(string \<times> string) list \<Rightarrow> string \<Rightarrow> string \<Rightarrow> string" where
  "session_path payload today ts =
     (let reading_type = (case map_of payload ''reading_type'' of
                            None \<Rightarrow> ''unknown'' | Some v \<Rightarrow> v);
          date = (case map_of payload ''date'' of None \<Rightarrow> today | Some v \<Rightarrow> v);
          fname = date @ ''_'' @ safe_type reading_type @ ''_'' @ ts @ ''.csv''
      in path_join RECORDINGS_DIR fname)"

definition start_recording ::
  "(string \<Rightarrow> bool) \<Rightarrow> (string \<times> string) list \<Rightarrow> string \<Rightarrow> string \<Rightarrow> string \<Rightarrow> server
     \<Rightarrow> server \<times> (error + string)" where
  "start_recording can_open payload today ts started st =
     (let reading_type = (case map_of payload ''reading_type'' of
                            None \<Rightarrow> ''unknown'' | Some v \<Rightarrow> v);
          date = (case map_of payload ''date'' of None \<Rightarrow> today | Some v \<Rightarrow> v);
          path = session_path payload today ts
      in if \<not> can_open path then (st, Inl OSError)
         else
           (st\<lparr>recording := True,
               current_session := [(''reading_type'', reading_type), (''date'', date),
                                   (''filename'', path), (''start_time'', started)],
               csv_file := Some path,
               csv_writer := Some path,
               files := (files st)(path \<mapsto> [csv_header])\<rparr>,
            Inr path))"

text \<open>\<^verbatim>\<open>stop_recording\<close>; the file name of the session, if any, is returned.\<close>

definition stop_recording :: "server \<Rightarrow> server \<times> string option" where
  "stop_recording st =
     (st\<lparr>recording := False, current_session := [], csv_file := None, csv_writer := None\<rparr>,
      map_of (current_session st) ''filename'')"

text \<open>Truth value of a Python object in a condition.\<close>

fun truthy :: "json \<Rightarrow> bool" where
  "truthy JNull = False"
| "truthy (JBool b) = b"
| "truthy (JInt n) = (n \<noteq> 0)"
| "truthy (JFloat x) = (x \<noteq> 0)"
| "truthy (JStr s) = (s \<noteq> [])"
| "truthy (JList xs) = (xs \<noteq> [])"
| "truthy (JObj kvs) = (kvs \<noteq> [])"

text \<open>The row written for one frame: twelve \<^verbatim>\<open>get\<close> calls with their defaults.\<close>

definition csv_row :: "json \<Rightarrow> error + json list" where
  "csv_row processed_data =
     bind_err (dict_get processed_data ''date'' (JStr [])) (\<lambda>c0.
     bind_err (dict_get processed_data ''time'' (JStr [])) (\<lambda>c1.
     bind_err (dict_get processed_data ''timestamp_ms'' (JInt 0)) (\<lambda>c2.
     bind_err (dict_get processed_data ''ax_g'' (JInt 0)) (\<lambda>c3.
     bind_err (dict_get processed_data ''ay_g'' (JInt 0)) (\<lambda>c4.
     bind_err (dict_get processed_data ''az_g'' (JInt 0)) (\<lambda>c5.
     bind_err (dict_get processed_data ''gx_dps'' (JInt 0)) (\<lambda>c6.
     bind_err (dict_get processed_data ''gy_dps'' (JInt 0)) (\<lambda>c7.
     bind_err (dict_get processed_data ''gz_dps'' (JInt 0)) (\<lambda>c8.
     bind_err (dict_get processed_data ''magnitude'' (JInt 0)) (\<lambda>c9.
     bind_err (dict_get processed_data ''mean_magnitude'' (JInt 0)) (\<lambda>c10.
     bind_err (dict_get processed_data ''rms_magnitude'' (JInt 0)) (\<lambda>c11.
       Inr [c0, c1, c2, c3, c4, c5, c6, c7, c8, c9, c10, c11]))))))))))))"

text \<open>
  The recording step of the \<^verbatim>\<open>/serial\<close> handler for one frame.  An exception while
  the row is built is caught and the frame is dropped.
\<close>

definition csv_append :: "server \<Rightarrow> json \<Rightarrow> server" where
  "csv_append st processed_data =
     (if recording st \<and> csv_writer st \<noteq> None \<and> truthy processed_data then
        (case csv_row processed_data of
           Inl e \<Rightarrow> st
         | Inr row \<Rightarrow>
             (case csv_writer st of
                None \<Rightarrow> st
              | Some path \<Rightarrow>
                  st\<lparr>files := (files st)(path \<mapsto>
                        (case files st path of None \<Rightarrow> [] | Some rows \<Rightarrow> rows) @ [row])\<rparr>))
      else st)"

text \<open>
  A start request, the frames that arrive after it in order, and a stop request.
  When the start request has failed the frames meet the recorder as it was.
\<close>

definition record_session ::
  "(string \<Rightarrow> bool) \<Rightarrow> (string \<times> string) list \<Rightarrow> string \<Rightarrow> string \<Rightarrow> string \<Rightarrow> json list
     \<Rightarrow> server \<Rightarrow> server" where
  "record_session can_open payload today ts started frames st =
     fst (stop_recording (fold (\<lambda>f s. csv_append s f) frames
            (fst (start_recording can_open payload today ts started st))))"

section \<open>Notions used in the statements\<close>

text \<open>
  The samples a sequence of calls has pushed into the window: a call whose
  dictionary display raises leaves the buffers untouched.
\<close>

fun pushed :: "(real \<Rightarrow> string \<Rightarrow> error + string) \<Rightarrow> raw_sample list \<Rightarrow> physical list" where
  "pushed strftime [] = []"
| "pushed strftime (r # rs) =
     (case mk_processed strftime r of
        Inl e \<Rightarrow> pushed strftime rs
      | Inr p \<Rightarrow> p # pushed strftime rs)"

text \<open>The window read across the four buffers, and the entry one sample contributes.\<close>

definition window_of :: "reader \<Rightarrow> (real \<times> real \<times> real \<times> json) list" where
  "window_of st = zip (ax_buffer st) (zip (ay_buffer st) (zip (az_buffer st) (timestamps st)))"

definition entry_of :: "physical \<Rightarrow> real \<times> real \<times> real \<times> json" where
  "entry_of p = (ax_g p, ay_g p, az_g p, timestamp_ms p)"

definition holds_window :: "reader \<Rightarrow> physical list \<Rightarrow> bool" where
  "holds_window st ps \<longleftrightarrow>
     ax_buffer st = map ax_g ps \<and> ay_buffer st = map ay_g ps \<and>
     az_buffer st = map az_g ps \<and> timestamps st = map timestamp_ms ps"

text \<open>The magnitude of the acceleration of one sample.\<close>

definition sample_magnitude :: "physical \<Rightarrow> real" where
  "sample_magnitude p = sqrt ((ax_g p)\<^sup>2 + (ay_g p)\<^sup>2 + (az_g p)\<^sup>2)"




text \<open>
  The record of one frame in the file, column by column: the value of the key in the
  frame, or the default of the column when the frame has no such key.
\<close>

definition column :: "(string \<times> json) list \<Rightarrow> string \<Rightarrow> json \<Rightarrow> json" where
  "column kvs k d = (case map_of kvs k of None \<Rightarrow> d | Some v \<Rightarrow> v)"

fun frame_record :: "json \<Rightarrow> json list" where
  "frame_record (JObj kvs) =
     [column kvs ''date'' (JStr []), column kvs ''time'' (JStr []),
      column kvs ''timestamp_ms'' (JInt 0),
      column kvs ''ax_g'' (JInt 0), column kvs ''ay_g'' (JInt 0), column kvs ''az_g'' (JInt 0),
      column kvs ''gx_dps'' (JInt 0), column kvs ''gy_dps'' (JInt 0),
      column kvs ''gz_dps'' (JInt 0),
      column kvs ''magnitude'' (JInt 0), column kvs ''mean_magnitude'' (JInt 0),
      column kvs ''rms_magnitude'' (JInt 0)]"
| "frame_record _ = []"

text \<open>A frame as the reader sends it: a dictionary that has a time stamp.\<close>

fun has_timestamp :: "json \<Rightarrow> bool" where
  "has_timestamp (JObj kvs) = (map_of kvs ''timestamp_ms'' \<noteq> None)"
| "has_timestamp _ = False"

fun timestamp_of :: "json \<Rightarrow> json" where
  "timestamp_of (JObj kvs) = column kvs ''timestamp_ms'' (JInt 0)"
| "timestamp_of _ = JNull"

text \<open>
  The delivery attempts of one handler among those of a schedule, in the order in
  which they completed: the client, the packet and the outcome.
\<close>

definition attempts_of :: "nat \<Rightarrow> (nat \<times> 'c \<times> 'p \<times> bool) list \<Rightarrow> ('c \<times> 'p \<times> bool) list" where
  "attempts_of b trace = map snd (filter (\<lambda>a. fst a = b) trace)"

definition failed_in :: "nat \<Rightarrow> (nat \<times> 'c \<times> 'p \<times> bool) list \<Rightarrow> 'c set" where
  "failed_in b trace = {c. \<exists>p. (c, p, False) \<in> set (attempts_of b trace)}"

subsection \<open>Inputs for concrete runs\<close>

text \<open>
  The functions of the Python library are parameters of the model.  For runs on
  concrete inputs: a clock whose formatting succeeds on every time stamp, a parser
  for plain decimal numerals (an optional minus sign and digits), the statistics
  without rounding (on the windows of the runs below numpy returns just these
  values: every intermediate result is a double), and the raw sample with a given
  count on the x axis and zero elsewhere.
\<close>

definition exact_numpy :: numpy where
  "exact_numpy = \<lparr>mean64 = np_mean, std64 = np_std\<rparr>"

definition sample_strftime :: "real \<Rightarrow> string \<Rightarrow> error + string" where
  "sample_strftime t fmt = Inr fmt"

definition digit_of :: "char \<Rightarrow> nat option" where
  "digit_of c = (let n = (of_char c :: nat) in if 48 \<le> n \<and> n \<le> 57 then Some (n - 48) else None)"

fun decimal :: "nat \<Rightarrow> string \<Rightarrow> nat option" where
  "decimal acc [] = Some acc"
| "decimal acc (c # cs) =
     (case digit_of c of None \<Rightarrow> None | Some d \<Rightarrow> decimal (10 * acc + d) cs)"

definition ascii_int :: "string \<Rightarrow> error + int" where
  "ascii_int s =
     (case s of
        [] \<Rightarrow> Inl ValueError
      | c # cs \<Rightarrow>
          if c = CHR ''-'' then
            (if cs = [] then Inl ValueError
             else (case decimal 0 cs of None \<Rightarrow> Inl ValueError | Some n \<Rightarrow> Inr (- int n)))
          else (case decimal 0 s of None \<Rightarrow> Inl ValueError | Some n \<Rightarrow> Inr (int n)))"

definition sample_raw :: "int \<Rightarrow> raw_sample" where
  "sample_raw a =
     \<lparr>timestamp_ms = JInt 0, ax_raw = JInt a, ay_raw = JInt 0, az_raw = JInt 0,
      gx_raw = JInt 0, gy_raw = JInt 0, gz_raw = JInt 0\<rparr>"

text \<open>
  The dictionary that \<^verbatim>\<open>process_data\<close> builds from such a sample under that clock,
  when the count has less than 54 binary digits: the quotient by 16384 is a double.
\<close>

definition sample_physical :: "int \<Rightarrow> physical" where
  "sample_physical a =
     \<lparr>timestamp_ms = JInt 0, ax_raw = JInt a, ay_raw = JInt 0, az_raw = JInt 0,
      gx_raw = JInt 0, gy_raw = JInt 0, gz_raw = JInt 0,
      date = ''%Y-%m-%d'', time = ''%H:%M:%S'',
      ax_g = real_of_int a / 16384, ay_g = 0, az_g = 0,
      gx_dps = 0, gy_dps = 0, gz_dps = 0\<rparr>"

text \<open>
  A hub with the given dashboard clients in which no handler is in its loop; a
  network on which the deliveries to one client fail; and a network on which the
  first delivery fails and every later one succeeds.  The state of these networks
  counts the deliveries attempted.
\<close>

definition idle_hub :: "nat set \<Rightarrow> (nat, string, nat) hub" where
  "idle_hub clients = \<lparr>ui_clients = clients, network = 0, suspended = Map.empty\<rparr>"

definition send_except :: "nat \<Rightarrow> nat \<Rightarrow> string \<Rightarrow> nat \<Rightarrow> bool \<times> nat" where
  "send_except gone c packet w = (c \<noteq> gone, Suc w)"

definition send_after_first :: "nat \<Rightarrow> string \<Rightarrow> nat \<Rightarrow> bool \<times> nat" where
  "send_after_first c packet w = (0 < w, Suc w)"

text \<open>
  A file system in which the directory of the recordings exists, is writable and
  has no subdirectories: a file can be opened for writing exactly when its path
  names a file directly in that directory.
\<close>

definition plain_directory :: "string \<Rightarrow> bool" where
  "plain_directory path \<longleftrightarrow>
     take 14 path = ''../recordings/'' \<and> drop 14 path \<noteq> [] \<and> CHR ''/'' \<notin> set (drop 14 path)"

text \<open>
  A window of twenty samples of 16-bit counts on which the rounding of numpy decides
  the acceptance test of \<^verbatim>\<open>detect_peaks\<close>, together with the two doubles that
  \<^verbatim>\<open>np.mean\<close> and \<^verbatim>\<open>np.std\<close> return for it (Python prints them as
  \<^verbatim>\<open>-0.00013427734375\<close> and \<^verbatim>\<open>0.0004638671874999999\<close>).
\<close>

definition boundary_window :: "real list" where
  "boundary_window =
     map (\<lambda>k. real_of_int k / 16384) ([0, 13, 0, - 19, - 19, - 19] @ replicate 14 0)"

definition boundary_numpy :: numpy where
  "boundary_numpy =
     \<lparr>mean64 = (\<lambda>xs. - 2476979795053773 / 2 ^ 64),
      std64 = (\<lambda>xs. 8556839292003941 / 2 ^ 64)\<rparr>"



definition seven_bins :: "real list" where
  "seven_bins = [0, 1, 2, 3, 4, 5, 6]"

section \<open>Exceptions in sequence\<close>

lemma bind_err_simps [simp]:
  "bind_err (Inl e) f = Inl e"
  "bind_err (Inr x) f = f x"
  by (simp_all add: bind_err_def)

lemma bind_err_Inr_iff:
  "bind_err m f = Inr y \<longleftrightarrow> (\<exists>x. m = Inr x \<and> f x = Inr y)"
  by (cases m) simp_all

section \<open>Double precision\<close>

lemma double_of_zero [simp]: "double_of 0 = 0"
  by (simp add: double_of_def)

lemma round_half_even_of_int [simp]: "round_half_even (of_int n) = n"
  by (simp add: round_half_even_def)

lemma round_half_even_near:
  assumes "\<bar>q - of_int n\<bar> < 1 / 2"
  shows "round_half_even q = n"
proof (cases "of_int n \<le> q")
  case True
  with assms have "\<lfloor>q\<rfloor> = n" by (intro floor_unique; linarith)
  with assms True show ?thesis by (simp add: round_half_even_def)
next
  case False
  with assms have fl: "\<lfloor>q\<rfloor> = n - 1" by (intro floor_unique; simp; linarith)
  from assms False have "1 / 2 < q - of_int (n - 1)" by simp
  then show ?thesis unfolding round_half_even_def fl Let_def by simp
qed

lemma round_half_even_tie:
  assumes "q = of_int n + 1 / 2"
  shows "round_half_even q = (if even n then n else n + 1)"
proof -
  have "\<lfloor>q\<rfloor> = n" unfolding assms by (intro floor_unique) simp_all
  then show ?thesis unfolding round_half_even_def Let_def by (simp add: assms)
qed

lemma floor_log2_less:
  assumes "x \<noteq> 0" and "\<bar>x\<bar> < 2 powr of_int k"
  shows "\<lfloor>log 2 \<bar>x\<bar>\<rfloor> < k"
proof -
  have "log 2 \<bar>x\<bar> < of_int k"
    using assms by (simp add: log_less_iff)
  then show ?thesis by (simp add: floor_less_iff)
qed

lemma floor_log2_eq:
  assumes "2 powr of_int k \<le> \<bar>x\<bar>" and "\<bar>x\<bar> < 2 powr of_int (k + 1)"
  shows "\<lfloor>log 2 \<bar>x\<bar>\<rfloor> = k"
proof -
  have pos: "0 < \<bar>x\<bar>" using assms(1) by (rule less_le_trans [rotated]) simp
  have "of_int k \<le> log 2 \<bar>x\<bar>" using assms(1) pos by (simp add: le_log_iff)
  moreover have "log 2 \<bar>x\<bar> < of_int k + 1" using assms(2) pos by (simp add: log_less_iff)
  ultimately show ?thesis by (intro floor_unique)
qed

text \<open>A number with at most 53 binary digits above \<open>2 ^ - 1074\<close> is a double.\<close>

lemma double_of_dyadic:
  assumes m: "\<bar>m\<bar> < 2 ^ 53" and e: "- 1074 \<le> e"
  shows "double_of (of_int m * 2 powr of_int e) = of_int m * 2 powr of_int e"
proof (cases "m = 0")
  case True
  then show ?thesis by simp
next
  case False
  define x where "x = real_of_int m * 2 powr of_int e"
  define u where "u = ulp_exponent x"
  have x0: "x \<noteq> 0" using False by (simp add: x_def)
  have "\<bar>x\<bar> = real_of_int \<bar>m\<bar> * 2 powr of_int e"
    by (simp add: x_def abs_mult)
  also have "\<dots> < 2 ^ 53 * 2 powr of_int e"
  proof -
    have "real_of_int \<bar>m\<bar> < real_of_int (2 ^ 53)" using m by (simp only: of_int_less_iff)
    then show ?thesis by simp
  qed
  also have "\<dots> = 2 powr of_int (e + 53)"
    by (simp add: powr_add powr_realpow [symmetric])
  finally have "\<lfloor>log 2 \<bar>x\<bar>\<rfloor> < e + 53" using x0 by (intro floor_log2_less)
  then have ue: "u \<le> e" using e by (simp add: u_def ulp_exponent_def)
  have pw: "2 powr of_int e * 2 powr - of_int u = (2::real) ^ nat (e - u)"
  proof -
    have "2 powr of_int e * 2 powr - of_int u = (2::real) powr (of_int e - of_int u)"
      by (simp add: powr_add [symmetric])
    also have "\<dots> = 2 powr real (nat (e - u))" using ue by simp
    also have "\<dots> = 2 ^ nat (e - u)" by (simp add: powr_realpow)
    finally show ?thesis .
  qed
  define N where "N = m * 2 ^ nat (e - u)"
  have "x * 2 powr - of_int u = of_int N"
    using pw by (simp add: x_def N_def mult.assoc)
  then have "round_half_even (x * 2 powr - of_int (ulp_exponent x)) = N"
    by (simp only: u_def [symmetric] round_half_even_of_int)
  then have "double_of x = of_int N * 2 powr of_int u"
    using x0 by (simp only: double_of_def u_def [symmetric] if_False)
  also have "\<dots> = real_of_int m * (2 powr of_int e * 2 powr - of_int u) * 2 powr of_int u"
    using pw by (simp add: N_def)
  also have "\<dots> = x"
    by (simp add: x_def mult.assoc powr_add [symmetric])
  finally show ?thesis by (simp add: x_def)
qed

lemma double_of_int:
  assumes "\<bar>r\<bar> < 2 ^ 53"
  shows "double_of (of_int r) = of_int r"
  using double_of_dyadic [OF assms, of 0] by simp

lemma double_of_int_div_pow2:
  assumes "\<bar>r\<bar> < 2 ^ 53" and "k \<le> 1074"
  shows "double_of (of_int r / 2 ^ k) = of_int r / 2 ^ k"
proof -
  have "2 powr of_int (- int k) = 1 / (2::real) ^ k"
    by (simp add: powr_minus powr_realpow divide_inverse)
  then show ?thesis
    using double_of_dyadic [OF assms(1), of "- int k"] assms(2) by simp
qed

text \<open>
  The double nearest to a number between \<open>2 ^ - j\<close> and \<open>2 ^ - (j - 1)\<close>: the
  multiple of \<open>2 ^ - (j + 52)\<close> less than half a step away, and in the middle between
  two of them the even one.
\<close>

lemma ulp_exponent_below_one:
  assumes "1 / 2 ^ j \<le> \<bar>x\<bar>" and "\<bar>x\<bar> < 2 / 2 ^ j" and "j \<le> 1022"
  shows "ulp_exponent x = - int (j + 52)"
proof -
  have "2 powr of_int (- int j) = 1 / (2::real) ^ j"
    by (simp add: powr_minus powr_realpow divide_inverse)
  moreover have "2 powr of_int (- int j + 1) = 2 / (2::real) ^ j"
  proof -
    have "2 powr of_int (- int j + 1) = 2 powr (- real j) * (2::real) powr 1"
      by (simp only: powr_add [symmetric]) simp
    then show ?thesis by (simp add: powr_minus powr_realpow divide_inverse)
  qed
  ultimately have "\<lfloor>log 2 \<bar>x\<bar>\<rfloor> = - int j"
    using assms(1,2) by (intro floor_log2_eq) simp_all
  then show ?thesis using assms(3) by (simp add: ulp_exponent_def)
qed

lemma double_of_below_one:
  assumes "1 / 2 ^ j \<le> \<bar>x\<bar>" and "\<bar>x\<bar> < 2 / 2 ^ j" and "j \<le> 1022"
  shows "double_of x = of_int (round_half_even (x * 2 ^ (j + 52))) / 2 ^ (j + 52)"
proof -
  have x0: "x \<noteq> 0"
  proof
    assume "x = 0"
    with assms(1) have "1 / (2::real) ^ j \<le> 0" by simp
    moreover have "0 < 1 / (2::real) ^ j" by simp
    ultimately show False by linarith
  qed
  have u: "ulp_exponent x = - int (j + 52)" using assms by (rule ulp_exponent_below_one)
  have up: "2 powr - real_of_int (- int (j + 52)) = (2::real) ^ (j + 52)"
    by (simp add: powr_realpow [symmetric] del: of_nat_add)
  have down: "2 powr real_of_int (- int (j + 52)) = 1 / (2::real) ^ (j + 52)"
    by (simp add: powr_minus powr_realpow [symmetric] divide_inverse del: of_nat_add)
  show ?thesis
    using x0 by (simp only: double_of_def u up down if_False) simp
qed

lemma double_of_nearest:
  assumes "1 / 2 ^ j \<le> \<bar>x\<bar>" and "\<bar>x\<bar> < 2 / 2 ^ j" and "j \<le> 1022"
    and "\<bar>x * 2 ^ (j + 52) - of_int n\<bar> < 1 / 2"
  shows "double_of x = of_int n / 2 ^ (j + 52)"
  unfolding double_of_below_one [OF assms(1-3)] round_half_even_near [OF assms(4)] ..

lemma double_of_tie:
  assumes "1 / 2 ^ j \<le> \<bar>x\<bar>" and "\<bar>x\<bar> < 2 / 2 ^ j" and "j \<le> 1022"
    and "x * 2 ^ (j + 52) = of_int n + 1 / 2"
  shows "double_of x = of_int (if even n then n else n + 1) / 2 ^ (j + 52)"
  unfolding double_of_below_one [OF assms(1-3)] round_half_even_tie [OF assms(4)] ..

text \<open>The double that Python prints as \<^verbatim>\<open>0.007633587786259542\<close>.\<close>

lemma double_of_one_over_131: "double_of (1 / 131) = 8800927516082801 / 2 ^ 60"
  using double_of_nearest [of 8 "1 / 131" 8800927516082801] by simp

lemma DBL_OVERFLOW_bounds: "2 ^ 1023 \<le> DBL_OVERFLOW" "DBL_OVERFLOW \<le> 2 ^ 1024"
proof -
  have "(2::real) ^ 970 \<le> 2 ^ 1023" by (rule power_increasing) simp_all
  moreover have "(2::real) ^ 1024 = 2 * 2 ^ 1023" by simp
  ultimately show "2 ^ 1023 \<le> DBL_OVERFLOW" unfolding DBL_OVERFLOW_def by linarith
  show "DBL_OVERFLOW \<le> 2 ^ 1024" by (simp add: DBL_OVERFLOW_def)
qed

lemma small_below_overflow:
  assumes "\<bar>r\<bar> < 2 ^ 53"
  shows "\<bar>real_of_int r\<bar> < DBL_OVERFLOW"
proof -
  have "real_of_int \<bar>r\<bar> < real_of_int (2 ^ 53)" using assms by (simp only: of_int_less_iff)
  then have "\<bar>real_of_int r\<bar> < 2 ^ 53" by simp
  also have "(2::real) ^ 53 \<le> 2 ^ 1023" by (rule power_increasing) simp_all
  also note DBL_OVERFLOW_bounds(1)
  finally show ?thesis .
qed

section \<open>Unit conversion\<close>

lemma int_to_float_small:
  assumes "\<bar>r\<bar> < 2 ^ 53"
  shows "int_to_float r = Inr (of_int r)"
  using small_below_overflow [OF assms] double_of_int [OF assms]
  by (simp add: int_to_float_def)

lemma convert_to_g_small:
  assumes "\<bar>r\<bar> < 2 ^ 53"
  shows "convert_to_g (JInt r) = Inr (of_int r / 16384)"
  using int_to_float_small [OF assms] double_of_int_div_pow2 [OF assms, of 14]
  by (simp add: convert_to_g_def ACCEL_SCALE_def float_truediv_def)

lemma convert_to_dps_small:
  assumes "\<bar>r\<bar> < 2 ^ 53"
  shows "convert_to_dps (JInt r) = Inr (double_of (of_int r / 131))"
  using int_to_float_small [OF assms]
  by (simp add: convert_to_dps_def GYRO_SCALE_def float_truediv_def)

text \<open>
  Claim C9, as the code has it.  The conversions are functions of the count alone:
  they read the two constants of the reader and change nothing.  On a raw integer
  count \<open>r\<close> of magnitude below \<open>2 ^ 1024 - 2 ^ 970\<close> they return without raising:
  the count is converted to the nearest double and divided by 16384.0 or 131.0 in
  double arithmetic.  When the magnitude is below \<open>2 ^ 53\<close>, as for every 16-bit
  count of the sensor, the conversion of the count is exact, \<^verbatim>\<open>convert_to_g\<close>
  returns the quotient \<open>r / 16384\<close> itself and \<^verbatim>\<open>convert_to_dps\<close> the double nearest
  to \<open>r / 131\<close>.  On a count of magnitude \<open>2 ^ 1024 - 2 ^ 970\<close> or more both raise
  \<^verbatim>\<open>OverflowError\<close>.
\<close>

theorem unit_conversion_bounded:
  "(\<bar>real_of_int r\<bar> < DBL_OVERFLOW \<longrightarrow>
      convert_to_g (JInt r) = Inr (double_of (double_of (of_int r) / 16384)) \<and>
      convert_to_dps (JInt r) = Inr (double_of (double_of (of_int r) / 131))) \<and>
   (\<bar>r\<bar> < 2 ^ 53 \<longrightarrow>
      convert_to_g (JInt r) = Inr (of_int r / 16384) \<and>
      convert_to_dps (JInt r) = Inr (double_of (of_int r / 131))) \<and>
   (DBL_OVERFLOW \<le> \<bar>real_of_int r\<bar> \<longrightarrow>
      convert_to_g (JInt r) = Inl OverflowError \<and>
      convert_to_dps (JInt r) = Inl OverflowError)"
proof (intro conjI impI)
  assume "\<bar>real_of_int r\<bar> < DBL_OVERFLOW"
  then show "convert_to_g (JInt r) = Inr (double_of (double_of (of_int r) / 16384))"
    and "convert_to_dps (JInt r) = Inr (double_of (double_of (of_int r) / 131))"
    by (simp_all add: convert_to_g_def convert_to_dps_def ACCEL_SCALE_def GYRO_SCALE_def
        int_to_float_def float_truediv_def)
next
  assume "\<bar>r\<bar> < 2 ^ 53"
  then show "convert_to_g (JInt r) = Inr (of_int r / 16384)"
    and "convert_to_dps (JInt r) = Inr (double_of (of_int r / 131))"
    by (rule convert_to_g_small, rule convert_to_dps_small)
next
  assume "DBL_OVERFLOW \<le> \<bar>real_of_int r\<bar>"
  then show "convert_to_g (JInt r) = Inl OverflowError"
    and "convert_to_dps (JInt r) = Inl OverflowError"
    by (simp_all add: convert_to_g_def convert_to_dps_def int_to_float_def)
qed

theorem unit_conversion_bounded_witness:
  "\<bar>real_of_int 13\<bar> < DBL_OVERFLOW \<and> \<bar>13 :: int\<bar> < 2 ^ 53 \<and>
   convert_to_g (JInt 13) = Inr (13 / 16384) \<and>
   convert_to_dps (JInt 1) = Inr (8800927516082801 / 2 ^ 60) \<and>
   DBL_OVERFLOW \<le> \<bar>real_of_int (2 ^ 1024)\<bar> \<and>
   convert_to_dps (JInt (2 ^ 1024)) = Inl OverflowError"
proof -
  have small: "\<bar>13 :: int\<bar> < 2 ^ 53" "\<bar>1 :: int\<bar> < 2 ^ 53" by simp_all
  have below: "\<bar>real_of_int 13\<bar> < DBL_OVERFLOW"
    using small_below_overflow [OF small(1)] .
  have above: "DBL_OVERFLOW \<le> \<bar>real_of_int (2 ^ 1024)\<bar>"
    using DBL_OVERFLOW_bounds(2) by simp
  from unit_conversion_bounded [of 13] small(1)
  have "convert_to_g (JInt 13) = Inr (13 / 16384)" by simp
  moreover from unit_conversion_bounded [of 1] small(2)
  have "convert_to_dps (JInt 1) = Inr (8800927516082801 / 2 ^ 60)"
    by (simp add: double_of_one_over_131)
  moreover from unit_conversion_bounded [of "2 ^ 1024"] above
  have "convert_to_dps (JInt (2 ^ 1024)) = Inl OverflowError" by blast
  ultimately show ?thesis using small(1) below above by blast
qed

text \<open>
  The conversions have an error path on integers: a line of the flat encoding may
  carry a count of any length, \<^verbatim>\<open>int\<close> accepts it, and the conversion of the count
  \<open>2 ^ 1024\<close> to a float raises.
\<close>

theorem conversion_raises_on_huge_count:
  "convert_to_g (JInt (2 ^ 1024)) = Inl OverflowError \<and>
   convert_to_dps (JInt (2 ^ 1024)) = Inl OverflowError"
proof -
  have "DBL_OVERFLOW \<le> \<bar>real_of_int (2 ^ 1024)\<bar>"
    using DBL_OVERFLOW_bounds(2) by simp
  then show ?thesis
    by (simp add: convert_to_g_def convert_to_dps_def int_to_float_def)
qed

section \<open>The decoder\<close>

lemma parse_data_returns: "\<exists>r. parse_data loads py_int now line = Inr r"
  by (simp add: parse_data_def split: sum.split)

lemma parse_flat_None_iff:
  "parse_flat py_int line = Inr None \<longleftrightarrow> length (split_on CHR '','' (strip line)) < 7"
  by (auto simp: parse_flat_def Let_def bind_err_Inr_iff)

lemma ex_less_seven:
  "(\<exists>i<7. P i) \<longleftrightarrow> P 0 \<or> P 1 \<or> P 2 \<or> P 3 \<or> P 4 \<or> P 5 \<or> P (6::nat)"
proof -
  have "{i::nat. i < 7} = {0, 1, 2, 3, 4, 5, 6}" by auto
  then have "(\<exists>i<7. P i) \<longleftrightarrow> (\<exists>i\<in>{0, 1, 2, 3, 4, 5, 6}. P i)" by blast
  then show ?thesis by simp
qed

lemma parse_flat_isl_iff:
  "isl (parse_flat py_int line) \<longleftrightarrow>
     7 \<le> length (split_on CHR '','' (strip line)) \<and>
     (\<exists>i<7. isl (py_int (split_on CHR '','' (strip line) ! i)))"
  unfolding ex_less_seven
  by (cases "py_int (split_on CHR '','' (strip line) ! 0)";
      cases "py_int (split_on CHR '','' (strip line) ! 1)";
      cases "py_int (split_on CHR '','' (strip line) ! 2)";
      cases "py_int (split_on CHR '','' (strip line) ! 3)";
      cases "py_int (split_on CHR '','' (strip line) ! 4)";
      cases "py_int (split_on CHR '','' (strip line) ! 5)";
      cases "py_int (split_on CHR '','' (strip line) ! 6)")
     (simp_all add: parse_flat_def Let_def)

text \<open>
  Claim C8.  On every line \<^verbatim>\<open>parse_data\<close> returns (a sample or \<^verbatim>\<open>None\<close>) and never
  raises; whenever the body of its \<^verbatim>\<open>try\<close> raises, the result is \<^verbatim>\<open>None\<close>.  On a
  flat line (one that does not start with a brace) the result is \<^verbatim>\<open>None\<close> exactly
  when the line has fewer than 7 comma-separated fields or \<^verbatim>\<open>int\<close> rejects one of
  the first 7.
\<close>

theorem parse_data_never_raises:
  "(\<exists>r. parse_data loads py_int now line = Inr r) \<and>
   (isl (parse_data_body loads py_int now line) \<longrightarrow>
      parse_data loads py_int now line = Inr None) \<and>
   (\<not> startswith_brace line \<longrightarrow>
      (parse_data loads py_int now line = Inr None \<longleftrightarrow>
         length (split_on CHR '','' (strip line)) < 7 \<or>
         (\<exists>i<7. isl (py_int (split_on CHR '','' (strip line) ! i)))))"
proof (intro conjI impI)
  show "\<exists>r. parse_data loads py_int now line = Inr r" by (rule parse_data_returns)
next
  assume "isl (parse_data_body loads py_int now line)"
  then show "parse_data loads py_int now line = Inr None"
    by (auto simp: parse_data_def split: sum.splits)
next
  assume flat: "\<not> startswith_brace line"
  let ?parts = "split_on CHR '','' (strip line)"
  have "parse_data loads py_int now line = Inr None \<longleftrightarrow>
          parse_flat py_int line = Inr None \<or> isl (parse_flat py_int line)"
    using flat by (auto simp: parse_data_def parse_data_body_def split: sum.splits)
  also have "\<dots> \<longleftrightarrow> length ?parts < 7 \<or> (\<exists>i<7. isl (py_int (?parts ! i)))"
    unfolding parse_flat_None_iff parse_flat_isl_iff by auto
  finally show "parse_data loads py_int now line = Inr None \<longleftrightarrow>
      length ?parts < 7 \<or> (\<exists>i<7. isl (py_int (?parts ! i)))" .
qed

lemma split_sample_line:
  "split_on CHR '','' (strip ''12,-3,4,5,6,7,x9 '') =
     [''12'', ''-3'', ''4'', ''5'', ''6'', ''7'', ''x9'']"
  by (simp add: strip_def is_space_def)

lemma ascii_int_rejects: "ascii_int ''x9'' = Inl ValueError"
  by (simp add: ascii_int_def digit_of_def)

theorem parse_data_never_raises_witness:
  "isl (parse_data_body (\<lambda>s. Inl ValueError) ascii_int 0 ''12,-3,4,5,6,7,x9 '') \<and>
   \<not> startswith_brace ''12,-3,4,5,6,7,x9 '' \<and>
   parse_data (\<lambda>s. Inl ValueError) ascii_int 0 ''12,-3,4,5,6,7,x9 '' = Inr None \<and>
   \<not> length (split_on CHR '','' (strip ''12,-3,4,5,6,7,x9 '')) < 7 \<and>
   isl (ascii_int (split_on CHR '','' (strip ''12,-3,4,5,6,7,x9 '') ! 6))"
proof -
  have parts: "isl (ascii_int (split_on CHR '','' (strip ''12,-3,4,5,6,7,x9 '') ! 6))"
    by (simp add: split_sample_line ascii_int_rejects)
  have len: "\<not> length (split_on CHR '','' (strip ''12,-3,4,5,6,7,x9 '')) < 7"
    by (simp add: split_sample_line)
  have flat: "\<not> startswith_brace ''12,-3,4,5,6,7,x9 ''" by simp
  have ex: "\<exists>i<7. isl (ascii_int (split_on CHR '','' (strip ''12,-3,4,5,6,7,x9 '') ! i))"
    using parts by (intro exI [of _ 6]) simp
  have body: "isl (parse_data_body (\<lambda>s. Inl ValueError) ascii_int 0 ''12,-3,4,5,6,7,x9 '')"
    using flat len ex by (simp add: parse_data_body_def parse_flat_isl_iff)
  from parse_data_never_raises [of "\<lambda>s. Inl ValueError" ascii_int 0 "''12,-3,4,5,6,7,x9 ''"]
    body flat ex parts len
  show ?thesis by blast
qed

section \<open>The sliding window\<close>

lemma lastn_length: "length (lastn n xs) = min n (length xs)"
  by (simp add: lastn_def)

lemma lastn_all: "length xs \<le> n \<Longrightarrow> lastn n xs = xs"
  by (simp add: lastn_def)

lemma lastn_snoc_full: "length xs = n \<Longrightarrow> lastn n (xs @ [x]) = tl (xs @ [x])"
  by (cases xs) (simp_all add: lastn_def)

lemma lastn_lastn_append: "lastn n (lastn n xs @ ys) = lastn n (xs @ ys)"
proof (cases "length xs \<le> n")
  case True
  then show ?thesis by (simp add: lastn_all)
next
  case False
  then have "length xs + length ys - (length xs - n + n) + (length xs - n) =
      length xs + length ys - n" by arith
  with False show ?thesis by (simp add: lastn_def)
qed

lemma window_push_holds:
  assumes "holds_window st ps" and "length ps \<le> buffer_size"
  shows "holds_window (window_push st p) (lastn buffer_size (ps @ [p]))"
proof (cases "length ps < buffer_size")
  case True
  then have "lastn buffer_size (ps @ [p]) = ps @ [p]" by (simp add: lastn_all)
  with assms True show ?thesis
    by (simp add: holds_window_def window_push_def Let_def)
next
  case False
  with assms have full: "length ps = buffer_size" by simp
  then have "lastn buffer_size (ps @ [p]) = tl (ps @ [p])" by (rule lastn_snoc_full)
  with assms full show ?thesis
    by (simp add: holds_window_def window_push_def Let_def map_tl)
qed

lemma fst_process_data:
  "fst (process_data strftime np st r) =
     (case mk_processed strftime r of Inl e \<Rightarrow> st | Inr p \<Rightarrow> window_push st p)"
  by (simp add: process_data_def Let_def split: sum.split)

lemma process_all_holds:
  assumes "holds_window st ps" and "length ps \<le> buffer_size"
  shows "holds_window (process_all strftime np st rs)
           (lastn buffer_size (ps @ pushed strftime rs))"
  using assms
proof (induction rs arbitrary: st ps)
  case Nil
  then show ?case by (simp add: lastn_all)
next
  case (Cons r rs)
  show ?case
  proof (cases "mk_processed strftime r")
    case (Inl e)
    with Cons show ?thesis by (simp add: fst_process_data)
  next
    case (Inr p)
    let ?ps' = "lastn buffer_size (ps @ [p])"
    have "holds_window (window_push st p) ?ps'"
      using Cons.prems by (rule window_push_holds)
    moreover have "length ?ps' \<le> buffer_size" by (simp add: lastn_length)
    ultimately have "holds_window (process_all strftime np (window_push st p) rs)
        (lastn buffer_size (?ps' @ pushed strftime rs))"
      by (rule Cons.IH)
    moreover have "lastn buffer_size (?ps' @ pushed strftime rs) =
        lastn buffer_size (ps @ p # pushed strftime rs)"
      using lastn_lastn_append [of buffer_size "ps @ [p]" "pushed strftime rs"] by simp
    ultimately show ?thesis using Inr by (simp add: fst_process_data)
  qed
qed

lemma reachable_holds:
  "holds_window (process_all strftime np reader_init rs)
     (lastn buffer_size (pushed strftime rs))"
  using process_all_holds [where st = reader_init and ps = "[]"]
  by (simp add: holds_window_def reader_init_def)

text \<open>
  Claim C1.  After any sequence of calls of \<^verbatim>\<open>process_data\<close> on a fresh reader, no
  buffer holds more than \<^verbatim>\<open>buffer_size\<close> = 256 elements, and each buffer holds the
  values of exactly the last 256 samples pushed (all of them while fewer have been
  pushed), in the order of arrival: of \<open>256 + k\<close> pushed samples the first \<open>k\<close>
  are gone.
\<close>

theorem window_fifo_capacity:
  "length (ax_buffer (process_all strftime np reader_init rs)) \<le> buffer_size \<and>
   length (ay_buffer (process_all strftime np reader_init rs)) \<le> buffer_size \<and>
   length (az_buffer (process_all strftime np reader_init rs)) \<le> buffer_size \<and>
   length (timestamps (process_all strftime np reader_init rs)) \<le> buffer_size \<and>
   buffer_size = 256 \<and>
   ax_buffer (process_all strftime np reader_init rs) =
     map ax_g (drop (length (pushed strftime rs) - buffer_size) (pushed strftime rs)) \<and>
   ay_buffer (process_all strftime np reader_init rs) =
     map ay_g (drop (length (pushed strftime rs) - buffer_size) (pushed strftime rs)) \<and>
   az_buffer (process_all strftime np reader_init rs) =
     map az_g (drop (length (pushed strftime rs) - buffer_size) (pushed strftime rs)) \<and>
   timestamps (process_all strftime np reader_init rs) =
     map timestamp_ms (drop (length (pushed strftime rs) - buffer_size) (pushed strftime rs))"
proof -
  have h: "holds_window (process_all strftime np reader_init rs)
     (lastn buffer_size (pushed strftime rs))" by (rule reachable_holds)
  have len: "length (lastn buffer_size (pushed strftime rs)) \<le> buffer_size"
    by (simp add: lastn_length)
  from h len show ?thesis
    by (simp add: holds_window_def lastn_def buffer_size_def)
qed

text \<open>
  Claim C10.  After every call of \<^verbatim>\<open>process_data\<close> the four buffers have the same
  length, at most \<^verbatim>\<open>buffer_size\<close>, and the entries at one index come from the same
  pushed sample; so the zipped computation of the magnitudes works on the three
  axis values of one sample at a time.
\<close>

theorem window_buffers_aligned:
  "length (ay_buffer (process_all strftime np reader_init rs)) =
     length (ax_buffer (process_all strftime np reader_init rs)) \<and>
   length (az_buffer (process_all strftime np reader_init rs)) =
     length (ax_buffer (process_all strftime np reader_init rs)) \<and>
   length (timestamps (process_all strftime np reader_init rs)) =
     length (ax_buffer (process_all strftime np reader_init rs)) \<and>
   length (ax_buffer (process_all strftime np reader_init rs)) \<le> buffer_size \<and>
   window_of (process_all strftime np reader_init rs) =
     map entry_of (lastn buffer_size (pushed strftime rs)) \<and>
   window_magnitudes (process_all strftime np reader_init rs) =
     map sample_magnitude (lastn buffer_size (pushed strftime rs))"
proof -
  have h: "holds_window (process_all strftime np reader_init rs)
     (lastn buffer_size (pushed strftime rs))" by (rule reachable_holds)
  have z: "zip (map f xs) (map g xs) = map (\<lambda>x. (f x, g x)) xs" for f :: "'a \<Rightarrow> 'b" and g :: "'a \<Rightarrow> 'c" and xs
    by (induction xs) simp_all
  from h show ?thesis
    by (simp add: holds_window_def window_of_def window_magnitudes_def entry_of_def z
        lastn_length comp_def sample_magnitude_def)
qed

section \<open>The analysis of the window\<close>

lemma snd_process_data:
  "snd (process_data strftime np st r) =
     (case mk_processed strftime r of
        Inl e \<Rightarrow> Inl e
      | Inr p \<Rightarrow>
          if squares_overflow (window_push st p) p then Inl OverflowError
          else Inr (analyse np (window_push st p) p))"
  by (simp add: process_data_def Let_def split: sum.split)

lemma process_data_frame:
  assumes "snd (process_data strftime np st r) = Inr fr"
  obtains p where "mk_processed strftime r = Inr p"
    and "fst (process_data strftime np st r) = window_push st p"
    and "fr = analyse np (window_push st p) p"
  using assms by (auto simp: snd_process_data fst_process_data split: sum.splits if_splits)

lemma analyse_fields:
  "mean_magnitude (analyse np st p) =
     (if ax_buffer st \<noteq> [] then Some (np_mean (window_magnitudes st)) else None)"
  "rms_ax (analyse np st p) =
     (if length (ax_buffer st) \<ge> 10 then Some (compute_rms (ax_buffer st)) else None)"
  "rms_ay (analyse np st p) =
     (if length (ax_buffer st) \<ge> 10 then Some (compute_rms (ay_buffer st)) else None)"
  "rms_az (analyse np st p) =
     (if length (ax_buffer st) \<ge> 10 then Some (compute_rms (az_buffer st)) else None)"
  "rms_magnitude (analyse np st p) =
     (if length (ax_buffer st) \<ge> 10 then Some (compute_rms (window_magnitudes st)) else None)"
  "fft_freq (analyse np st p) =
     (if length (ax_buffer st) \<ge> fft_window then Some (fst (compute_fft (ax_buffer st))) else None)"
  "fft_amp (analyse np st p) =
     (if length (ax_buffer st) \<ge> fft_window then Some (snd (compute_fft (ax_buffer st))) else None)"
  "fft_peaks (analyse np st p) =
     (if length (ax_buffer st) \<ge> fft_window
      then extract_fft_peaks (fst (compute_fft (ax_buffer st))) (snd (compute_fft (ax_buffer st)))
      else None)"
  "peaks_detected (analyse np st p) =
     (if length (ax_buffer st) \<ge> 20 \<and> detect_peaks np (ax_buffer st) 2 \<noteq> [] then Some True else None)"
  "peak_values (analyse np st p) =
     (if length (ax_buffer st) \<ge> 20 \<and> detect_peaks np (ax_buffer st) 2 \<noteq> []
      then Some (map (\<lambda>i. ax_buffer st ! i) (lastn 3 (detect_peaks np (ax_buffer st) 2))) else None)"
  "mean_ax (analyse np st p) = (if ax_buffer st \<noteq> [] then Some (np_mean (ax_buffer st)) else None)"
  "mean_ay (analyse np st p) = (if ax_buffer st \<noteq> [] then Some (np_mean (ay_buffer st)) else None)"
  "mean_az (analyse np st p) = (if ax_buffer st \<noteq> [] then Some (np_mean (az_buffer st)) else None)"
  by (simp_all add: analyse_def Let_def physical.defs)

lemma process_all_append:
  "process_all strftime np st (rs @ rs') = process_all strftime np (process_all strftime np st rs) rs'"
  by (induction rs arbitrary: st) simp_all

lemma pushed_append: "pushed strftime (rs @ rs') = pushed strftime rs @ pushed strftime rs'"
  by (induction rs) (simp_all split: sum.split)

lemma length_compute_fft:
  "length (fst (compute_fft xs)) = (if length xs < fft_window then 0 else fft_window div 2 + 1)"
  "length (snd (compute_fft xs)) = (if length xs < fft_window then 0 else fft_window div 2 + 1)"
  by (simp_all add: compute_fft_def Let_def rfft_def rfftfreq_def hamming_def lastn_length
      fft_window_def)

lemma extract_fft_peaks_present:
  "length amp > 5 \<Longrightarrow> extract_fft_peaks freq amp \<noteq> None"
  by (auto simp: extract_fft_peaks_def Let_def)

lemma fold_detect_peaks_step:
  "fold (detect_peaks_step b m s t) is acc =
     acc @ filter (\<lambda>i. b ! (i - 1) < b ! i \<and> b ! (i + 1) < b ! i \<and>
                        double_of (m + double_of (t * s)) < b ! i) is"
  by (induction "is" arbitrary: acc) (simp_all add: detect_peaks_step_def)

lemma detect_peaks_filter:
  "detect_peaks np b t =
     filter (\<lambda>i. b ! (i - 1) < b ! i \<and> b ! (i + 1) < b ! i \<and>
                  double_of (mean64 np b + double_of (t * std64 np b)) < b ! i)
            [1..<length b - 1]"
proof (cases "length b < 3")
  case True
  then have "[1..<length b - 1] = []" by simp
  with True show ?thesis by (simp add: detect_peaks_def)
next
  case False
  then show ?thesis by (simp add: detect_peaks_def Let_def fold_detect_peaks_step)
qed

subsection \<open>Concrete runs\<close>

lemma DBL_OVERFLOW_pos [simp]: "\<not> DBL_OVERFLOW \<le> 0"
proof -
  have "(0::real) < 2 ^ 1023" by simp
  with DBL_OVERFLOW_bounds(1) show ?thesis by linarith
qed

lemma mk_processed_sample:
  assumes "\<bar>a\<bar> < 2 ^ 53"
  shows "mk_processed sample_strftime (sample_raw a) = Inr (sample_physical a)"
proof -
  have zero: "\<bar>0 :: int\<bar> < 2 ^ 53" by simp
  show ?thesis
    using convert_to_g_small [OF assms] convert_to_g_small [OF zero]
      convert_to_dps_small [OF zero]
    by (simp add: mk_processed_def sample_strftime_def sample_raw_def sample_physical_def
        int_truediv_def)
qed

lemma pushed_samples:
  assumes "list_all (\<lambda>a. \<bar>a\<bar> < 2 ^ 53) as"
  shows "pushed sample_strftime (map sample_raw as) = map sample_physical as"
  using assms by (induction as) (simp_all add: mk_processed_sample)

lemma process_data_last:
  "fst (process_data strftime np (process_all strftime np reader_init rs) r) =
     process_all strftime np reader_init (rs @ [r])"
  by (simp add: process_all_append)

lemma lastn_eq_Nil_iff: "lastn n xs = [] \<longleftrightarrow> xs = [] \<or> n = 0"
proof -
  have "length xs \<le> length xs - n \<longleftrightarrow> length xs = 0 \<or> n = 0" by arith
  then show ?thesis by (simp add: lastn_def)
qed

lemma zip_map_map: "zip (map f xs) (map g xs) = map (\<lambda>x. (f x, g x)) xs"
  by (induction xs) simp_all

lemma window_magnitudes_holds:
  assumes "holds_window st ps"
  shows "window_magnitudes st = map sample_magnitude ps"
  using assms
  by (simp add: holds_window_def window_magnitudes_def zip_map_map comp_def sample_magnitude_def)

lemma run_samples_holds:
  assumes "length as < buffer_size" and "list_all (\<lambda>a. \<bar>a\<bar> < 2 ^ 53) (as @ [a])"
  shows "holds_window
           (fst (process_data sample_strftime np
                   (process_all sample_strftime np reader_init (map sample_raw as)) (sample_raw a)))
           (map sample_physical (as @ [a]))"
proof -
  have "holds_window (process_all sample_strftime np reader_init (map sample_raw (as @ [a])))
          (lastn buffer_size (pushed sample_strftime (map sample_raw (as @ [a]))))"
    by (rule reachable_holds)
  moreover have "lastn buffer_size (map sample_physical (as @ [a])) = map sample_physical (as @ [a])"
    using assms(1) by (simp add: lastn_all)
  ultimately show ?thesis
    unfolding process_data_last pushed_samples [OF assms(2)] by simp
qed

text \<open>The squares of such samples stay far below the range of the doubles.\<close>

lemma pow2_fits:
  assumes "\<bar>a\<bar> < 2 ^ 53"
  shows "\<not> pow2_raises (real_of_int a / 16384)"
proof -
  have "real_of_int \<bar>a\<bar> < real_of_int (2 ^ 53)" using assms by (simp only: of_int_less_iff)
  then have "\<bar>real_of_int a\<bar> < 2 ^ 53" by simp
  moreover have "\<bar>real_of_int a / 16384\<bar> \<le> \<bar>real_of_int a\<bar>" by simp
  ultimately have "\<bar>real_of_int a / 16384\<bar> < 2 ^ 53" by linarith
  then have "\<bar>real_of_int a / 16384\<bar>\<^sup>2 < (2 ^ 53)\<^sup>2"
    by (intro power_strict_mono) simp_all
  moreover have "\<bar>real_of_int a / 16384\<bar>\<^sup>2 = (real_of_int a / 16384)\<^sup>2"
    by (rule power2_abs)
  moreover have "((2::real) ^ 53)\<^sup>2 = 2 ^ 106" by simp
  ultimately have "(real_of_int a / 16384)\<^sup>2 < 2 ^ 106" by (simp only:)
  also have "(2::real) ^ 106 \<le> 2 ^ 1023" by (rule power_increasing) simp_all
  also note DBL_OVERFLOW_bounds(1)
  finally show ?thesis by (simp add: pow2_raises_def)
qed

lemma squares_fit:
  assumes "holds_window st (map sample_physical as)"
    and "list_all (\<lambda>a. \<bar>a\<bar> < 2 ^ 53) as" and "\<bar>a\<bar> < 2 ^ 53"
  shows "\<not> squares_overflow st (sample_physical a)"
proof -
  have zero: "\<not> pow2_raises 0" by (simp add: pow2_raises_def)
  have "\<not> list_ex (\<lambda>(x, y, z). pow2_raises x \<or> pow2_raises y \<or> pow2_raises z)
            (zip (ax_buffer st) (zip (ay_buffer st) (az_buffer st)))"
    using assms(1,2)
    by (auto simp: holds_window_def zip_map_map list_ex_iff list_all_iff sample_physical_def
        zero pow2_fits)
  with assms(3) show ?thesis
    by (simp add: squares_overflow_def sample_physical_def zero pow2_fits)
qed

lemma run_samples_frame:
  assumes "length as < buffer_size" and "list_all (\<lambda>a. \<bar>a\<bar> < 2 ^ 53) (as @ [a])"
  shows "snd (process_data sample_strftime np
                (process_all sample_strftime np reader_init (map sample_raw as)) (sample_raw a)) =
         Inr (analyse np
                (fst (process_data sample_strftime np
                        (process_all sample_strftime np reader_init (map sample_raw as))
                        (sample_raw a)))
                (sample_physical a))"
proof -
  let ?st = "process_all sample_strftime np reader_init (map sample_raw as)"
  from assms(2) have a: "\<bar>a\<bar> < 2 ^ 53" and as: "list_all (\<lambda>a. \<bar>a\<bar> < 2 ^ 53) as" by simp_all
  have p: "mk_processed sample_strftime (sample_raw a) = Inr (sample_physical a)"
    using a by (rule mk_processed_sample)
  have "holds_window (fst (process_data sample_strftime np ?st (sample_raw a)))
          (map sample_physical (as @ [a]))"
    using assms by (rule run_samples_holds)
  then have "holds_window (window_push ?st (sample_physical a)) (map sample_physical (as @ [a]))"
    by (simp add: fst_process_data p)
  then have "\<not> squares_overflow (window_push ?st (sample_physical a)) (sample_physical a)"
    using assms(2) a by (rule squares_fit)
  then show ?thesis by (simp add: snd_process_data fst_process_data p)
qed

lemma detect_peaks_constant: "detect_peaks np (replicate n c) t = []"
  by (auto simp: detect_peaks_filter filter_empty_conv)

lemma ax_g_sample [simp]: "ax_g (sample_physical a) = real_of_int a / 16384"
  by (simp add: sample_physical_def)


section \<open>Which fields a frame carries\<close>

text \<open>
  Claim C2, as the code has it.  In the frame \<^verbatim>\<open>process_data\<close> returns, with \<open>w\<close>
  the window after the push: the four RMS fields are present exactly when \<open>w\<close> has
  at least 10 samples; the three spectral fields are present exactly when \<open>w\<close> has
  at least 128 samples; the two peak fields are present exactly when \<open>w\<close> has at
  least 20 samples and \<^verbatim>\<open>detect_peaks\<close> accepts at least one peak in it.
\<close>

theorem field_presence_thresholds:
  assumes "snd (process_data strftime np st r) = Inr fr"
  shows "(let w = ax_buffer (fst (process_data strftime np st r)) in
         (rms_ax fr \<noteq> None \<longleftrightarrow> length w \<ge> 10) \<and>
         (rms_ay fr \<noteq> None \<longleftrightarrow> length w \<ge> 10) \<and>
         (rms_az fr \<noteq> None \<longleftrightarrow> length w \<ge> 10) \<and>
         (rms_magnitude fr \<noteq> None \<longleftrightarrow> length w \<ge> 10) \<and>
         (fft_freq fr \<noteq> None \<longleftrightarrow> length w \<ge> 128) \<and>
         (fft_amp fr \<noteq> None \<longleftrightarrow> length w \<ge> 128) \<and>
         (fft_peaks fr \<noteq> None \<longleftrightarrow> length w \<ge> 128) \<and>
         (peaks_detected fr \<noteq> None \<longleftrightarrow> length w \<ge> 20 \<and> detect_peaks np w 2 \<noteq> []) \<and>
         (peak_values fr \<noteq> None \<longleftrightarrow> length w \<ge> 20 \<and> detect_peaks np w 2 \<noteq> []))"
proof -
  define w where "w = ax_buffer (fst (process_data strftime np st r))"
  from assms obtain p where st': "fst (process_data strftime np st r) = window_push st p"
    and fr: "fr = analyse np (window_push st p) p"
    by (rule process_data_frame)
  from st' have w: "ax_buffer (window_push st p) = w" by (simp add: w_def)
  have "length w \<ge> fft_window \<Longrightarrow> length (snd (compute_fft w)) > 5"
    by (simp add: length_compute_fft fft_window_def)
  then have peaks: "length w \<ge> fft_window \<Longrightarrow>
      extract_fft_peaks (fst (compute_fft w)) (snd (compute_fft w)) \<noteq> None"
    by (rule extract_fft_peaks_present)
  have "(rms_ax fr \<noteq> None \<longleftrightarrow> length w \<ge> 10) \<and>
         (rms_ay fr \<noteq> None \<longleftrightarrow> length w \<ge> 10) \<and>
         (rms_az fr \<noteq> None \<longleftrightarrow> length w \<ge> 10) \<and>
         (rms_magnitude fr \<noteq> None \<longleftrightarrow> length w \<ge> 10) \<and>
         (fft_freq fr \<noteq> None \<longleftrightarrow> length w \<ge> 128) \<and>
         (fft_amp fr \<noteq> None \<longleftrightarrow> length w \<ge> 128) \<and>
         (fft_peaks fr \<noteq> None \<longleftrightarrow> length w \<ge> 128) \<and>
         (peaks_detected fr \<noteq> None \<longleftrightarrow> length w \<ge> 20 \<and> detect_peaks np w 2 \<noteq> []) \<and>
         (peak_values fr \<noteq> None \<longleftrightarrow> length w \<ge> 20 \<and> detect_peaks np w 2 \<noteq> [])"
    unfolding fr analyse_fields w using peaks by (auto simp: fft_window_def)
  then show ?thesis unfolding w_def Let_def .
qed

theorem field_presence_thresholds_witness:
  "snd (process_data sample_strftime exact_numpy
      (process_all sample_strftime exact_numpy reader_init (map sample_raw [0, 0, 0, 0, 0, 0, 0, 0, 0]))
      (sample_raw 0)) =
     Inr (projr (snd (process_data sample_strftime exact_numpy
      (process_all sample_strftime exact_numpy reader_init (map sample_raw [0, 0, 0, 0, 0, 0, 0, 0, 0]))
      (sample_raw 0)))) \<and>
   length (ax_buffer (fst (process_data sample_strftime exact_numpy
      (process_all sample_strftime exact_numpy reader_init (map sample_raw [0, 0, 0, 0, 0, 0, 0, 0, 0]))
      (sample_raw 0)))) = 10 \<and>
   rms_ax (projr (snd (process_data sample_strftime exact_numpy
      (process_all sample_strftime exact_numpy reader_init (map sample_raw [0, 0, 0, 0, 0, 0, 0, 0, 0]))
      (sample_raw 0)))) \<noteq> None \<and>
   fft_amp (projr (snd (process_data sample_strftime exact_numpy
      (process_all sample_strftime exact_numpy reader_init (map sample_raw [0, 0, 0, 0, 0, 0, 0, 0, 0]))
      (sample_raw 0)))) = None \<and>
   peak_values (projr (snd (process_data sample_strftime exact_numpy
      (process_all sample_strftime exact_numpy reader_init (map sample_raw [0, 0, 0, 0, 0, 0, 0, 0, 0]))
      (sample_raw 0)))) = None"
proof -
  let ?R = "process_data sample_strftime exact_numpy
      (process_all sample_strftime exact_numpy reader_init (map sample_raw [0, 0, 0, 0, 0, 0, 0, 0, 0]))
      (sample_raw 0)"
  have isr: "snd ?R = Inr (projr (snd ?R))"
    using run_samples_frame [of "[0, 0, 0, 0, 0, 0, 0, 0, 0]" 0 exact_numpy]
    by (simp add: buffer_size_def)
  have "holds_window (fst ?R) (map sample_physical ([0, 0, 0, 0, 0, 0, 0, 0, 0] @ [0]))"
    by (rule run_samples_holds) (simp_all add: buffer_size_def)
  then have len: "length (ax_buffer (fst ?R)) = 10"
    by (simp add: holds_window_def)
  from field_presence_thresholds [OF isr] len isr show ?thesis
    by (simp add: Let_def)
qed

lemma twenty_zeros:
  "ax_buffer (fst (process_data sample_strftime exact_numpy
      (process_all sample_strftime exact_numpy reader_init (replicate 19 (sample_raw 0))) (sample_raw 0))) =
   replicate (Suc 19) 0"
proof -
  have "holds_window
           (fst (process_data sample_strftime exact_numpy
                   (process_all sample_strftime exact_numpy reader_init (map sample_raw (replicate 19 0)))
                   (sample_raw 0)))
           (map sample_physical (replicate 19 0 @ [0]))"
    by (rule run_samples_holds) (simp_all add: buffer_size_def list_all_iff)
  then have "ax_buffer (fst (process_data sample_strftime exact_numpy
      (process_all sample_strftime exact_numpy reader_init (replicate 19 (sample_raw 0))) (sample_raw 0))) =
      replicate 19 0 @ [0]"
    by (simp add: holds_window_def)
  also have "\<dots> = replicate (Suc 19) (0::real)"
    by (simp only: replicate_append_same replicate_Suc)
  finally show ?thesis .
qed

text \<open>
  The peak fields are not decided by the size of the window alone: after twenty
  samples at rest the window holds 20 values, a frame is returned, and it carries
  neither \<^verbatim>\<open>peaks_detected\<close> nor \<^verbatim>\<open>peak_values\<close>.
\<close>

theorem no_peak_fields_at_twenty:
  "length (ax_buffer (fst (process_data sample_strftime exact_numpy
      (process_all sample_strftime exact_numpy reader_init (replicate 19 (sample_raw 0))) (sample_raw 0)))) = 20 \<and>
   \<not> isl (snd (process_data sample_strftime exact_numpy
      (process_all sample_strftime exact_numpy reader_init (replicate 19 (sample_raw 0))) (sample_raw 0))) \<and>
   peaks_detected (projr (snd (process_data sample_strftime exact_numpy
      (process_all sample_strftime exact_numpy reader_init (replicate 19 (sample_raw 0))) (sample_raw 0)))) = None \<and>
   peak_values (projr (snd (process_data sample_strftime exact_numpy
      (process_all sample_strftime exact_numpy reader_init (replicate 19 (sample_raw 0))) (sample_raw 0)))) = None"
proof -
  have fr: "snd (process_data sample_strftime exact_numpy
      (process_all sample_strftime exact_numpy reader_init (replicate 19 (sample_raw 0)))
      (sample_raw 0)) =
    Inr (analyse exact_numpy
      (fst (process_data sample_strftime exact_numpy
         (process_all sample_strftime exact_numpy reader_init (replicate 19 (sample_raw 0)))
         (sample_raw 0)))
      (sample_physical 0))"
    using run_samples_frame [of "replicate 19 0" 0 exact_numpy]
    by (simp add: buffer_size_def list_all_iff)
  show ?thesis
    unfolding fr sum.sel sum.disc analyse_fields twenty_zeros
    by (simp add: detect_peaks_constant)
qed


section \<open>Peaks in the time domain\<close>

text \<open>
  Claim C6.  On a window \<open>w\<close> of at least 20 samples of the x axis,
  \<^verbatim>\<open>detect_peaks\<close> returns, in increasing order, exactly the indices \<open>i\<close> other than
  the first and the last whose sample is strictly greater than both neighbours and
  greater than the limit \<^verbatim>\<open>mean_val + 2.0 * std_val\<close>.  The limit is a double: the
  sum and the product are rounded, and \<^verbatim>\<open>mean_val\<close> and \<^verbatim>\<open>std_val\<close> are the doubles
  that \<^verbatim>\<open>np.mean\<close> and \<^verbatim>\<open>np.std\<close> return for the window.  When there is such an
  index the frame carries the flag and the values at the last three of them (at most
  three values), and otherwise neither field.

  The limit differs from the mean plus twice the standard deviation of the real
  numbers by the rounding of numpy only: when the difference is at most \<open>\<delta>\<close>, a
  sample above both neighbours is accepted if it exceeds that number by more than
  \<open>\<delta>\<close> and is not accepted if it falls short of it by more than \<open>\<delta>\<close>.
\<close>

theorem time_domain_peaks:
  assumes "snd (process_data strftime np st r) = Inr fr"
    and "length (ax_buffer (fst (process_data strftime np st r))) \<ge> 20"
  shows "(let w = ax_buffer (fst (process_data strftime np st r));
              limit = double_of (mean64 np w + double_of (2 * std64 np w));
              accepted = filter (\<lambda>i. w ! (i - 1) < w ! i \<and> w ! (i + 1) < w ! i \<and> limit < w ! i)
                                [1..<length w - 1]
          in detect_peaks np w 2 = accepted \<and>
             peaks_detected fr = (if accepted = [] then None else Some True) \<and>
             peak_values fr =
               (if accepted = [] then None else Some (map (\<lambda>i. w ! i) (lastn 3 accepted))) \<and>
             length (lastn 3 accepted) \<le> 3 \<and>
             (\<forall>\<delta> i. \<bar>limit - (np_mean w + 2 * np_std w)\<bar> \<le> \<delta> \<and>
                    1 \<le> i \<and> i < length w - 1 \<and> w ! (i - 1) < w ! i \<and> w ! (i + 1) < w ! i \<longrightarrow>
                (np_mean w + 2 * np_std w + \<delta> < w ! i \<longrightarrow> i \<in> set accepted) \<and>
                (w ! i < np_mean w + 2 * np_std w - \<delta> \<longrightarrow> i \<notin> set accepted)))"
proof -
  from assms(1) obtain p where st': "fst (process_data strftime np st r) = window_push st p"
    and fr: "fr = analyse np (window_push st p) p"
    by (rule process_data_frame)
  define w where "w = ax_buffer (window_push st p)"
  define limit where "limit = double_of (mean64 np w + double_of (2 * std64 np w))"
  define accepted where
    "accepted = filter (\<lambda>i. w ! (i - 1) < w ! i \<and> w ! (i + 1) < w ! i \<and> limit < w ! i)
                       [1..<length w - 1]"
  from assms(2) st' have len: "20 \<le> length w" by (simp add: w_def)
  have det: "detect_peaks np w 2 = accepted"
    by (simp add: detect_peaks_filter accepted_def limit_def)
  have flag: "peaks_detected fr = (if accepted = [] then None else Some True)"
    and vals: "peak_values fr =
      (if accepted = [] then None else Some (map (\<lambda>i. w ! i) (lastn 3 accepted)))"
    unfolding fr analyse_fields w_def [symmetric] det using len by simp_all
  have three: "length (lastn 3 accepted) \<le> 3" by (simp add: lastn_length)
  have near: "(np_mean w + 2 * np_std w + \<delta> < w ! i \<longrightarrow> i \<in> set accepted) \<and>
      (w ! i < np_mean w + 2 * np_std w - \<delta> \<longrightarrow> i \<notin> set accepted)"
    if "\<bar>limit - (np_mean w + 2 * np_std w)\<bar> \<le> \<delta> \<and>
        1 \<le> i \<and> i < length w - 1 \<and> w ! (i - 1) < w ! i \<and> w ! (i + 1) < w ! i" for \<delta> i
  proof -
    from that have d: "\<bar>limit - (np_mean w + 2 * np_std w)\<bar> \<le> \<delta>"
      and i: "1 \<le> i" "i < length w - 1" and c: "w ! (i - 1) < w ! i" "w ! (i + 1) < w ! i"
      by simp_all
    from i c have mem: "i \<in> set accepted \<longleftrightarrow> limit < w ! i"
      by (simp add: accepted_def)
    from d have "limit \<le> np_mean w + 2 * np_std w + \<delta>"
      and "np_mean w + 2 * np_std w - \<delta> \<le> limit" by linarith+
    then show ?thesis unfolding mem by linarith
  qed
  from det flag vals three near show ?thesis
    unfolding Let_def st' w_def [symmetric] limit_def [symmetric] accepted_def [symmetric]
    by blast
qed

text \<open>
  A run of 32 samples: 28 at rest, then the counts - 16384, 0, 16384 and 0.  The
  mean of the window is 0 and its standard deviation a quarter, without any
  rounding; the sample 1 at index 30 exceeds the limit one half.
\<close>

lemma two_spikes_window:
  "ax_buffer (fst (process_data sample_strftime exact_numpy
      (process_all sample_strftime exact_numpy reader_init
         (map sample_raw (replicate 28 0 @ [- 16384, 0, 16384])))
      (sample_raw 0))) = replicate 28 0 @ [- 1, 0, 1, 0]"
proof -
  have "holds_window
          (fst (process_data sample_strftime exact_numpy
             (process_all sample_strftime exact_numpy reader_init
                (map sample_raw (replicate 28 0 @ [- 16384, 0, 16384])))
             (sample_raw 0)))
          (map sample_physical ((replicate 28 0 @ [- 16384, 0, 16384]) @ [0]))"
    by (rule run_samples_holds) (simp_all add: buffer_size_def list_all_iff)
  then show ?thesis by (simp add: holds_window_def)
qed

lemma two_spikes_statistics:
  "np_mean (replicate 28 0 @ [- 1, 0, 1, 0]) = 0"
  "np_std (replicate 28 0 @ [- 1, 0, 1, 0]) = 1 / 4"
proof -
  show m: "np_mean (replicate 28 0 @ [- 1, 0, 1, 0]) = 0"
    by (simp add: np_mean_def sum_list_replicate)
  have "sqrt (1 / 16) = 1 / 4"
    by (rule real_sqrt_unique) (simp_all add: power2_eq_square)
  then show "np_std (replicate 28 0 @ [- 1, 0, 1, 0]) = 1 / 4"
    unfolding np_std_def m by (simp add: np_mean_def sum_list_replicate)
qed

lemma two_spikes_limit:
  "double_of (mean64 exact_numpy (replicate 28 0 @ [- 1, 0, 1, 0]) +
      double_of (2 * std64 exact_numpy (replicate 28 0 @ [- 1, 0, 1, 0]))) = 1 / 2"
proof -
  have half: "double_of (1 / 2) = 1 / 2"
    using double_of_int_div_pow2 [of 1 1] by simp
  have "mean64 exact_numpy (replicate 28 0 @ [- 1, 0, 1, 0]) = 0"
    and "2 * std64 exact_numpy (replicate 28 0 @ [- 1, 0, 1, 0]) = 1 / 2"
    by (simp_all add: exact_numpy_def two_spikes_statistics)
  then show ?thesis by (simp only: half add_0)
qed

lemma two_spikes_accepted:
  "filter (\<lambda>i. (replicate 28 (0::real) @ [- 1, 0, 1, 0]) ! (i - 1) <
                  (replicate 28 (0::real) @ [- 1, 0, 1, 0]) ! i \<and>
                (replicate 28 (0::real) @ [- 1, 0, 1, 0]) ! (i + 1) <
                  (replicate 28 (0::real) @ [- 1, 0, 1, 0]) ! i \<and>
                1 / 2 < (replicate 28 (0::real) @ [- 1, 0, 1, 0]) ! i)
     [1..<length (replicate 28 (0::real) @ [- 1, 0, 1, 0]) - 1] = [30]"
proof -
  let ?w = "replicate 28 (0::real) @ [- 1, 0, 1, 0]"
  let ?P = "\<lambda>i. ?w ! (i - 1) < ?w ! i \<and> ?w ! (i + 1) < ?w ! i \<and> 1 / 2 < ?w ! i"
  have "[1..<Suc 30] = [1..<30] @ [30]" by (rule upt_Suc_append) simp
  moreover have "length ?w - 1 = Suc 30" by simp
  ultimately have split: "[1..<length ?w - 1] = [1..<30] @ [30]" by simp
  have low: "filter ?P [1..<30] = []"
    by (auto simp: filter_empty_conv nth_append nth_Cons split: nat.splits)
  have top: "?P 30" by (simp add: nth_append)
  show ?thesis unfolding split filter_append low using top by simp
qed

theorem time_domain_peaks_witness:
  "snd (process_data sample_strftime exact_numpy
      (process_all sample_strftime exact_numpy reader_init
         (map sample_raw (replicate 28 0 @ [- 16384, 0, 16384])))
      (sample_raw 0)) =
     Inr (projr (snd (process_data sample_strftime exact_numpy
      (process_all sample_strftime exact_numpy reader_init
         (map sample_raw (replicate 28 0 @ [- 16384, 0, 16384])))
      (sample_raw 0)))) \<and>
   length (ax_buffer (fst (process_data sample_strftime exact_numpy
      (process_all sample_strftime exact_numpy reader_init
         (map sample_raw (replicate 28 0 @ [- 16384, 0, 16384])))
      (sample_raw 0)))) \<ge> 20 \<and>
   detect_peaks exact_numpy (replicate 28 0 @ [- 1, 0, 1, 0]) 2 = [30] \<and>
   \<bar>double_of (mean64 exact_numpy (replicate 28 0 @ [- 1, 0, 1, 0]) +
       double_of (2 * std64 exact_numpy (replicate 28 0 @ [- 1, 0, 1, 0]))) -
     (np_mean (replicate 28 0 @ [- 1, 0, 1, 0]) +
      2 * np_std (replicate 28 0 @ [- 1, 0, 1, 0]))\<bar> \<le> 0 \<and>
   np_mean (replicate 28 0 @ [- 1, 0, 1, 0]) + 2 * np_std (replicate 28 0 @ [- 1, 0, 1, 0]) + 0 <
     (replicate 28 0 @ [- 1, 0, 1, 0]) ! 30 \<and>
   peaks_detected (projr (snd (process_data sample_strftime exact_numpy
      (process_all sample_strftime exact_numpy reader_init
         (map sample_raw (replicate 28 0 @ [- 16384, 0, 16384])))
      (sample_raw 0)))) = Some True \<and>
   peak_values (projr (snd (process_data sample_strftime exact_numpy
      (process_all sample_strftime exact_numpy reader_init
         (map sample_raw (replicate 28 0 @ [- 16384, 0, 16384])))
      (sample_raw 0)))) = Some [1]"
proof -
  let ?R = "process_data sample_strftime exact_numpy
      (process_all sample_strftime exact_numpy reader_init
         (map sample_raw (replicate 28 0 @ [- 16384, 0, 16384])))
      (sample_raw 0)"
  have isr: "snd ?R = Inr (projr (snd ?R))"
    using run_samples_frame [of "replicate 28 0 @ [- 16384, 0, 16384]" 0 exact_numpy]
    by (simp add: buffer_size_def list_all_iff)
  have len: "length (ax_buffer (fst ?R)) \<ge> 20"
    unfolding two_spikes_window by simp
  from time_domain_peaks [OF isr len] have
    "detect_peaks exact_numpy (replicate 28 0 @ [- 1, 0, 1, 0]) 2 = [30] \<and>
     peaks_detected (projr (snd ?R)) = Some True \<and>
     peak_values (projr (snd ?R)) = Some [1]"
    unfolding two_spikes_window Let_def two_spikes_limit two_spikes_accepted
    by (simp add: lastn_def nth_append)
  moreover have "\<bar>double_of (mean64 exact_numpy (replicate 28 0 @ [- 1, 0, 1, 0]) +
       double_of (2 * std64 exact_numpy (replicate 28 0 @ [- 1, 0, 1, 0]))) -
     (np_mean (replicate 28 0 @ [- 1, 0, 1, 0]) +
      2 * np_std (replicate 28 0 @ [- 1, 0, 1, 0]))\<bar> \<le> 0"
    unfolding two_spikes_limit two_spikes_statistics by simp
  moreover have "np_mean (replicate 28 0 @ [- 1, 0, 1, 0]) +
      2 * np_std (replicate 28 0 @ [- 1, 0, 1, 0]) + 0 < (replicate 28 0 @ [- 1, 0, 1, 0]) ! 30"
    unfolding two_spikes_statistics by (simp add: nth_append)
  ultimately show ?thesis using isr len by blast
qed

text \<open>
  Why the limit is taken in double arithmetic.  On the window of the counts
  0, 13, 0, - 19, - 19, - 19 and fourteen times 0 the mean and the standard deviation
  of the real numbers are \<open>- 2.2 / 16384\<close> and \<open>7.6 / 16384\<close>, and the mean plus twice
  the deviation is the sample \<open>13 / 16384\<close> at index 1 itself: over the real numbers
  the sample does not exceed it.  The doubles that numpy returns for the mean and
  the deviation add up to the double two steps below \<open>13 / 16384\<close>, and
  \<^verbatim>\<open>detect_peaks\<close> accepts index 1.
\<close>

lemma boundary_exact_limit:
  "np_mean boundary_window + 2 * np_std boundary_window = boundary_window ! 1"
proof -
  have m: "np_mean boundary_window = - 11 / 81920"
    by (simp add: boundary_window_def np_mean_def sum_list_replicate)
  have "sqrt (361 / 1677721600) = 19 / 40960"
    by (rule real_sqrt_unique) (simp_all add: power2_eq_square)
  then have s: "np_std boundary_window = 19 / 40960"
    unfolding np_std_def m
    by (simp add: boundary_window_def np_mean_def sum_list_replicate power2_eq_square)
  show ?thesis unfolding m s by (simp add: boundary_window_def)
qed

lemma boundary_double_limit:
  "double_of (mean64 boundary_numpy boundary_window +
      double_of (2 * std64 boundary_numpy boundary_window)) = 7318349394477054 / 2 ^ 63"
proof -
  have "double_of (8556839292003941 / 2 ^ 63) = 8556839292003941 / 2 ^ 63"
    using double_of_int_div_pow2 [of 8556839292003941 63] by simp
  then have prod: "double_of (2 * (8556839292003941 / 2 ^ 64)) = 8556839292003941 / 2 ^ 63"
    by simp
  have "double_of (- 2476979795053773 / 2 ^ 64 + 8556839292003941 / 2 ^ 63) =
      7318349394477054 / 2 ^ 63"
    using double_of_tie [of 11 "- 2476979795053773 / 2 ^ 64 + 8556839292003941 / 2 ^ 63"
        7318349394477054]
    by simp
  then show ?thesis by (simp only: boundary_numpy_def numpy.simps prod)
qed

lemma boundary_accepted: "detect_peaks boundary_numpy boundary_window 2 = [1]"
proof -
  let ?w = "map (\<lambda>k. real_of_int k / 16384) ([0, 13, 0, - 19, - 19, - 19] @ replicate 14 0)"
  let ?P = "\<lambda>i. ?w ! (i - 1) < ?w ! i \<and> ?w ! (i + 1) < ?w ! i \<and>
                 7318349394477054 / 2 ^ 63 < ?w ! i"
  have "[1..<Suc 18] = [1..<7] @ [7..<Suc 18]"
    using upt_add_eq_append [of 1 7 12] by simp
  moreover have "[1..<7] = [1, 2, 3, 4, 5, 6]" by (simp add: upt_rec)
  moreover have "length ?w - 1 = Suc 18" by simp
  ultimately have split: "[1..<length ?w - 1] = [1, 2, 3, 4, 5, 6] @ [7..<Suc 18]" by simp
  have high: "filter ?P [7..<Suc 18] = []"
    by (auto simp: filter_empty_conv nth_append nth_Cons split: nat.splits)
  have low: "filter ?P [1, 2, 3, 4, 5, 6] = [1]" by simp
  have "filter ?P [1..<length ?w - 1] = [1]"
    unfolding split filter_append low high by simp
  then show ?thesis
    unfolding detect_peaks_filter boundary_double_limit
    unfolding boundary_window_def .
qed


section \<open>The mean magnitude\<close>

lemma sample_magnitude_sample:
  "sample_magnitude (sample_physical a) = \<bar>real_of_int a / 16384\<bar>"
  by (simp add: sample_magnitude_def sample_physical_def)

text \<open>
  Claim C7.  The window after a push is never empty, and \<^verbatim>\<open>mean_magnitude\<close> of the
  frame is the arithmetic mean of the magnitudes \<open>sqrt (ax\<^sup>2 + ay\<^sup>2 + az\<^sup>2)\<close> of
  the samples in the window (the last 256 pushed).  It is not the magnitude of the
  means of the axes: there is a run on which the two differ.
\<close>

theorem mean_magnitude_over_window:
  assumes "snd (process_data strftime np (process_all strftime np reader_init rs) r) = Inr fr"
  shows "(let w = lastn buffer_size (pushed strftime (rs @ [r])) in
            w \<noteq> [] \<and>
            mean_magnitude fr = Some (sum_list (map sample_magnitude w) / real (length w))) \<and>
         (\<exists>strftime' np' rs' r' fr' mx my mz.
            snd (process_data strftime' np' (process_all strftime' np' reader_init rs') r') = Inr fr' \<and>
            mean_ax fr' = Some mx \<and> mean_ay fr' = Some my \<and> mean_az fr' = Some mz \<and>
            mean_magnitude fr' \<noteq> Some (sqrt (mx\<^sup>2 + my\<^sup>2 + mz\<^sup>2)))"
proof
  let ?st = "process_all strftime np reader_init (rs @ [r])"
  let ?w = "lastn buffer_size (pushed strftime (rs @ [r]))"
  from assms obtain p where p: "mk_processed strftime r = Inr p"
    and st': "fst (process_data strftime np (process_all strftime np reader_init rs) r) =
                window_push (process_all strftime np reader_init rs) p"
    and fr: "fr = analyse np (window_push (process_all strftime np reader_init rs) p) p"
    by (rule process_data_frame)
  from st' have st: "window_push (process_all strftime np reader_init rs) p = ?st"
    by (simp add: process_data_last)
  have hw: "holds_window ?st ?w" by (rule reachable_holds)
  have "pushed strftime (rs @ [r]) \<noteq> []" using p by (simp add: pushed_append)
  then have ne: "?w \<noteq> []" by (simp add: lastn_eq_Nil_iff buffer_size_def)
  have "window_magnitudes ?st = map sample_magnitude ?w"
    using window_magnitudes_holds [OF hw] .
  moreover have "ax_buffer ?st \<noteq> []" using hw ne by (simp add: holds_window_def)
  ultimately have "mean_magnitude fr = Some (sum_list (map sample_magnitude ?w) / real (length ?w))"
    unfolding fr st analyse_fields by (simp add: np_mean_def)
  with ne show "let w = ?w in w \<noteq> [] \<and>
      mean_magnitude fr = Some (sum_list (map sample_magnitude w) / real (length w))"
    by (simp add: Let_def)
next
  let ?R = "process_data sample_strftime exact_numpy
      (process_all sample_strftime exact_numpy reader_init (map sample_raw [16384])) (sample_raw (- 16384))"
  have hw: "holds_window (fst ?R) (map sample_physical ([16384] @ [- 16384]))"
    by (rule run_samples_holds) (simp_all add: buffer_size_def)
  have fr: "snd ?R = Inr (analyse exact_numpy (fst ?R) (sample_physical (- 16384)))"
    using run_samples_frame [of "[16384]" "- 16384" exact_numpy]
    by (simp add: buffer_size_def)
  have mags: "window_magnitudes (fst ?R) = [1, 1]"
    using window_magnitudes_holds [OF hw] by (simp add: sample_magnitude_sample)
  have bufs: "ax_buffer (fst ?R) = [1, - 1]" "ay_buffer (fst ?R) = [0, 0]"
    "az_buffer (fst ?R) = [0, 0]"
    using hw by (simp_all add: holds_window_def sample_physical_def)
  have "mean_ax (analyse exact_numpy (fst ?R) (sample_physical (- 16384))) = Some 0 \<and>
        mean_ay (analyse exact_numpy (fst ?R) (sample_physical (- 16384))) = Some 0 \<and>
        mean_az (analyse exact_numpy (fst ?R) (sample_physical (- 16384))) = Some 0 \<and>
        mean_magnitude (analyse exact_numpy (fst ?R) (sample_physical (- 16384))) \<noteq>
          Some (sqrt (0\<^sup>2 + 0\<^sup>2 + 0\<^sup>2))"
    unfolding analyse_fields mags bufs by (simp add: np_mean_def)
  with fr show "\<exists>strftime' np' rs' r' fr' mx my mz.
      snd (process_data strftime' np' (process_all strftime' np' reader_init rs') r') = Inr fr' \<and>
      mean_ax fr' = Some mx \<and> mean_ay fr' = Some my \<and> mean_az fr' = Some mz \<and>
      mean_magnitude fr' \<noteq> Some (sqrt (mx\<^sup>2 + my\<^sup>2 + mz\<^sup>2))"
    by (simp only: list.map) blast
qed

theorem mean_magnitude_over_window_witness:
  "snd (process_data sample_strftime exact_numpy
      (process_all sample_strftime exact_numpy reader_init (map sample_raw [16384])) (sample_raw (- 16384))) =
     Inr (projr (snd (process_data sample_strftime exact_numpy
      (process_all sample_strftime exact_numpy reader_init (map sample_raw [16384])) (sample_raw (- 16384))))) \<and>
   mean_magnitude (projr (snd (process_data sample_strftime exact_numpy
      (process_all sample_strftime exact_numpy reader_init (map sample_raw [16384])) (sample_raw (- 16384))))) =
     Some 1 \<and>
   mean_ax (projr (snd (process_data sample_strftime exact_numpy
      (process_all sample_strftime exact_numpy reader_init (map sample_raw [16384])) (sample_raw (- 16384))))) =
     Some 0"
proof -
  let ?R = "process_data sample_strftime exact_numpy
      (process_all sample_strftime exact_numpy reader_init (map sample_raw [16384])) (sample_raw (- 16384))"
  have fr: "snd ?R = Inr (analyse exact_numpy (fst ?R) (sample_physical (- 16384)))"
    using run_samples_frame [of "[16384]" "- 16384" exact_numpy]
    by (simp add: buffer_size_def)
  then have isr: "snd ?R = Inr (projr (snd ?R))" by simp
  have w: "lastn buffer_size (pushed sample_strftime (map sample_raw [16384] @ [sample_raw (- 16384)])) =
      [sample_physical 16384, sample_physical (- 16384)]"
    by (simp add: mk_processed_sample lastn_def buffer_size_def)
  have hw: "holds_window (fst ?R) (map sample_physical ([16384] @ [- 16384]))"
    by (rule run_samples_holds) (simp_all add: buffer_size_def)
  then have ax: "ax_buffer (fst ?R) = [1, - 1]" by (simp add: holds_window_def)
  have "mean_ax (projr (snd ?R)) = Some 0"
    unfolding fr sum.sel analyse_fields ax by (simp add: np_mean_def)
  moreover from mean_magnitude_over_window [OF isr]
  have "mean_magnitude (projr (snd ?R)) = Some 1"
    unfolding w Let_def by (simp add: sample_magnitude_sample)
  ultimately show ?thesis using isr by blast
qed


section \<open>Peaks of the spectrum\<close>



















lemma local_maxima_sample: "local_maxima_1d [1, 5, 1, 1, 1, 1] = [1]"
  by (simp add: local_maxima_1d_def plateau_end_def upt_rec_numeral)






text \<open>
  Two more runs of the extraction: a peak whose amplitude is exactly 10% of the
  maximum is reported, and a flat peak is reported once, at its middle bin.
\<close>

lemma threshold_is_inclusive:
  "extract_fft_peaks seven_bins [50, 1, 5, 1, 1, 1, 1] = Some [(2, 5)]"
  by (simp add: seven_bins_def extract_fft_peaks_def find_peaks_def local_maxima_sample)

lemma local_maxima_flat: "local_maxima_1d [1, 5, 5, 5, 1, 1] = [2]"
  by (simp add: local_maxima_1d_def plateau_end_def upt_rec_numeral)

lemma flat_peak_reported_at_middle:
  "extract_fft_peaks seven_bins [9, 1, 5, 5, 5, 1, 1] = Some [(3, 5)]"
  by (simp add: seven_bins_def extract_fft_peaks_def find_peaks_def local_maxima_flat)

section \<open>The broadcast\<close>

subsection \<open>Single steps\<close>

lemma fold_unregister: "fold unregister dead S = S - set dead"
  by (induction dead arbitrary: S) (auto simp: unregister_def)

lemma hub_step_resume:
  assumes "suspended h b = Some (packet, client # rest, dead)"
    and "send client packet (network h) = (ok, w)"
  shows "hub_step send order h (Resume b) =
           (if rest = [] then
              (h\<lparr>ui_clients := ui_clients h - set (if ok then dead else dead @ [client]),
                 network := w, suspended := (suspended h)(b := None)\<rparr>,
               [(b, client, packet, ok)])
            else
              (h\<lparr>network := w,
                 suspended := (suspended h)(b \<mapsto> (packet, rest, if ok then dead else dead @ [client]))\<rparr>,
               [(b, client, packet, ok)]))"
  using assms by (simp add: Let_def fold_unregister)

lemma hub_step_suspended_other:
  assumes "ev \<noteq> Resume b" and "\<forall>q. ev \<noteq> Message b q"
  shows "suspended (fst (hub_step send order h ev)) b = suspended h b"
proof (cases ev)
  case (Resume b')
  with assms(1) have "b' \<noteq> b" by simp
  then show ?thesis
    unfolding Resume
    by (auto simp: Let_def split: option.splits list.splits prod.splits)
next
  case (Message b' q)
  with assms(2) have "b' \<noteq> b" by auto
  then show ?thesis unfolding Message by simp
qed simp_all

lemma hub_step_attempts_other:
  assumes "ev \<noteq> Resume b"
  shows "attempts_of b (snd (hub_step send order h ev)) = []"
proof (cases ev)
  case (Resume b')
  with assms have "b' \<noteq> b" by simp
  then show ?thesis
    unfolding Resume
    by (auto simp: attempts_of_def Let_def split: option.splits list.splits prod.splits)
qed (simp_all add: attempts_of_def)

lemma hub_step_clients:
  assumes "c \<notin> ui_clients h" and "ev \<noteq> Connect c"
  shows "c \<notin> ui_clients (fst (hub_step send order h ev))"
proof (cases ev)
  case (Connect c')
  with assms show ?thesis by (simp add: register_def)
next
  case (Disconnect c')
  with assms show ?thesis by (simp add: unregister_def)
next
  case (Message b q)
  with assms show ?thesis by simp
next
  case (Resume b)
  with assms(1) show ?thesis
    by (auto simp: Let_def fold_unregister unregister_def
        split: option.splits list.splits prod.splits)
qed

lemma hub_step_disconnect: "c \<notin> ui_clients (fst (hub_step send order h (Disconnect c)))"
  by (simp add: unregister_def)

lemma hub_step_finite:
  assumes "finite (ui_clients h)"
  shows "finite (ui_clients (fst (hub_step send order h ev)))"
proof (cases ev)
  case (Resume b)
  with assms show ?thesis
    by (auto simp: Let_def fold_unregister unregister_def
        split: option.splits list.splits prod.splits)
qed (use assms in \<open>simp_all add: register_def unregister_def\<close>)

subsection \<open>Schedules\<close>

lemma hub_exec_Cons:
  "fst (hub_exec send order h (ev # evs)) =
     fst (hub_exec send order (fst (hub_step send order h ev)) evs)"
  "snd (hub_exec send order h (ev # evs)) =
     snd (hub_step send order h ev) @ snd (hub_exec send order (fst (hub_step send order h ev)) evs)"
  by (simp_all split: prod.splits)

lemma hub_exec_append:
  "fst (hub_exec send order h (xs @ ys)) =
     fst (hub_exec send order (fst (hub_exec send order h xs)) ys) \<and>
   snd (hub_exec send order h (xs @ ys)) =
     snd (hub_exec send order h xs) @ snd (hub_exec send order (fst (hub_exec send order h xs)) ys)"
proof (induction xs arbitrary: h)
  case Nil
  show ?case by simp
next
  case (Cons x xs)
  show ?case unfolding append_Cons hub_exec_Cons using Cons.IH by simp
qed

lemma attempts_of_append [simp]:
  "attempts_of b (xs @ ys) = attempts_of b xs @ attempts_of b ys"
  by (simp add: attempts_of_def)

lemma failed_in_Nil:
  "attempts_of b trace = [] \<Longrightarrow> failed_in b trace = {}"
  by (simp add: failed_in_def)

lemma hub_exec_clients:
  assumes "c \<notin> ui_clients h" and "Connect c \<notin> set evs"
  shows "c \<notin> ui_clients (fst (hub_exec send order h evs))"
  using assms
proof (induction evs arbitrary: h)
  case Nil
  then show ?case by simp
next
  case (Cons ev evs)
  from Cons.prems have "ev \<noteq> Connect c" "Connect c \<notin> set evs" by auto
  with Cons.prems(1) have "c \<notin> ui_clients (fst (hub_step send order h ev))"
    by (intro hub_step_clients)
  then show ?case
    unfolding hub_exec_Cons using \<open>Connect c \<notin> set evs\<close> by (rule Cons.IH)
qed

lemma hub_exec_finite:
  assumes "finite (ui_clients h)"
  shows "finite (ui_clients (fst (hub_exec send order h evs)))"
  using assms
proof (induction evs arbitrary: h)
  case Nil
  then show ?case by simp
next
  case (Cons ev evs)
  from Cons.prems have "finite (ui_clients (fst (hub_step send order h ev)))"
    by (rule hub_step_finite)
  then show ?case unfolding hub_exec_Cons by (rule Cons.IH)
qed

text \<open>A handler that is not in its loop and receives no message stays out of it.\<close>

lemma hub_step_idle:
  assumes "suspended h b = None" and "\<forall>q. ev \<noteq> Message b q"
  shows "suspended (fst (hub_step send order h ev)) b = None \<and>
         attempts_of b (snd (hub_step send order h ev)) = []"
proof (cases "ev = Resume b")
  case True
  with assms(1) show ?thesis by (simp add: attempts_of_def)
next
  case False
  with assms show ?thesis
    by (simp add: hub_step_suspended_other hub_step_attempts_other)
qed

lemma hub_exec_idle:
  assumes "suspended h b = None" and "\<forall>q. Message b q \<notin> set evs"
  shows "suspended (fst (hub_exec send order h evs)) b = None \<and>
         attempts_of b (snd (hub_exec send order h evs)) = []"
  using assms
proof (induction evs arbitrary: h)
  case Nil
  then show ?case by (simp add: attempts_of_def)
next
  case (Cons ev evs)
  from Cons.prems(2) have rest: "\<forall>q. Message b q \<notin> set evs"
    and "\<forall>q. ev \<noteq> Message b q" by auto
  with Cons.prems(1) have s: "suspended (fst (hub_step send order h ev)) b = None"
    and a: "attempts_of b (snd (hub_step send order h ev)) = []"
    using hub_step_idle by blast+
  from Cons.IH [OF s rest] a show ?case
    unfolding hub_exec_Cons by simp
qed

subsection \<open>One publish among the others\<close>

text \<open>
  A handler suspended in its loop with the clients \<open>todo\<close> still to be served: in
  every schedule in which it leaves the loop, it has made one attempt for each of
  them, in their order and with its packet; and the step in which it leaves the loop
  takes out of the set the clients of its list \<^verbatim>\<open>dead\<close>, which are those it had
  found dead before and those whose attempt failed.
\<close>

lemma publish_attempts:
  assumes "suspended h b = Some (packet, todo, dead)" and "todo \<noteq> []"
    and "\<forall>q. Message b q \<notin> set evs"
    and "suspended (fst (hub_exec send order h evs)) b = None"
  shows "map (\<lambda>a. (fst a, fst (snd a))) (attempts_of b (snd (hub_exec send order h evs))) =
           map (\<lambda>c. (c, packet)) todo"
  using assms
proof (induction evs arbitrary: h todo dead)
  case Nil
  then show ?case by simp
next
  case (Cons ev evs)
  from Cons.prems(3) have rest: "\<forall>q. Message b q \<notin> set evs"
    and nomsg: "\<forall>q. ev \<noteq> Message b q" by auto
  let ?h1 = "fst (hub_step send order h ev)"
  from Cons.prems(4) have ret: "suspended (fst (hub_exec send order ?h1 evs)) b = None"
    by (simp only: hub_exec_Cons)
  show ?case
  proof (cases "ev = Resume b")
    case False
    with nomsg have "suspended ?h1 b = Some (packet, todo, dead)"
      using Cons.prems(1) by (simp add: hub_step_suspended_other)
    from Cons.IH [OF this Cons.prems(2) rest ret]
    show ?thesis
      unfolding hub_exec_Cons using False by (simp add: hub_step_attempts_other)
  next
    case True
    from Cons.prems(2) obtain client tail where todo: "todo = client # tail"
      by (cases todo) auto
    obtain ok w where s: "send client packet (network h) = (ok, w)"
      by (cases "send client packet (network h)")
    note step = hub_step_resume [where send = send and order = order,
        OF Cons.prems(1) [unfolded todo] s]
    show ?thesis
    proof (cases "tail = []")
      case True
      with step have "suspended ?h1 b = None"
        and a: "snd (hub_step send order h ev) = [(b, client, packet, ok)]"
        unfolding \<open>ev = Resume b\<close> by simp_all
      from hub_exec_idle [OF this(1) rest]
      have "attempts_of b (snd (hub_exec send order ?h1 evs)) = []" by blast
      then show ?thesis
        unfolding hub_exec_Cons a todo True by (simp add: attempts_of_def)
    next
      case False
      with step have
        "suspended ?h1 b = Some (packet, tail, if ok then dead else dead @ [client])"
        and a: "snd (hub_step send order h ev) = [(b, client, packet, ok)]"
        unfolding \<open>ev = Resume b\<close> by simp_all
      from Cons.IH [OF this(1) False rest ret]
      show ?thesis
        unfolding hub_exec_Cons a todo by (simp add: attempts_of_def)
    qed
  qed
qed

lemma failed_in_Cons:
  "failed_in b ((b, client, packet, ok) # trace) =
     (if ok then failed_in b trace else insert client (failed_in b trace))"
  by (auto simp: failed_in_def attempts_of_def)

lemma failed_in_append_other:
  "attempts_of b xs = [] \<Longrightarrow> failed_in b (xs @ ys) = failed_in b ys"
  by (simp add: failed_in_def)

lemma publish_returns:
  assumes "suspended h b = Some (packet, todo, dead)" and "todo \<noteq> []"
    and "\<forall>q. Message b q \<notin> set evs"
    and "suspended (fst (hub_exec send order h evs)) b = None"
  shows "\<exists>evs1 evs2. evs = evs1 @ Resume b # evs2 \<and>
           suspended (fst (hub_exec send order h evs1)) b \<noteq> None \<and>
           suspended (fst (hub_step send order (fst (hub_exec send order h evs1)) (Resume b))) b = None \<and>
           ui_clients (fst (hub_step send order (fst (hub_exec send order h evs1)) (Resume b))) =
             ui_clients (fst (hub_exec send order h evs1)) -
               (set dead \<union> failed_in b (snd (hub_exec send order h evs)))"
  using assms
proof (induction evs arbitrary: h todo dead)
  case Nil
  then show ?case by simp
next
  case (Cons ev evs)
  from Cons.prems(3) have rest: "\<forall>q. Message b q \<notin> set evs"
    and nomsg: "\<forall>q. ev \<noteq> Message b q" by auto
  let ?h1 = "fst (hub_step send order h ev)"
  from Cons.prems(4) have ret: "suspended (fst (hub_exec send order ?h1 evs)) b = None"
    by (simp only: hub_exec_Cons)
  show ?case
  proof (cases "ev = Resume b")
    case False
    with nomsg have "suspended ?h1 b = Some (packet, todo, dead)"
      using Cons.prems(1) by (simp add: hub_step_suspended_other)
    from Cons.IH [OF this Cons.prems(2) rest ret]
    obtain evs1 evs2 where split: "evs = evs1 @ Resume b # evs2"
      and before: "suspended (fst (hub_exec send order ?h1 evs1)) b \<noteq> None"
      and after: "suspended (fst (hub_step send order (fst (hub_exec send order ?h1 evs1)) (Resume b))) b = None"
      and gone: "ui_clients (fst (hub_step send order (fst (hub_exec send order ?h1 evs1)) (Resume b))) =
         ui_clients (fst (hub_exec send order ?h1 evs1)) -
           (set dead \<union> failed_in b (snd (hub_exec send order ?h1 evs)))"
      by blast
    have "failed_in b (snd (hub_exec send order h (ev # evs))) =
        failed_in b (snd (hub_exec send order ?h1 evs))"
      unfolding hub_exec_Cons using False
      by (intro failed_in_append_other hub_step_attempts_other)
    with split before after gone
    have "ev # evs = (ev # evs1) @ Resume b # evs2 \<and>
        suspended (fst (hub_exec send order h (ev # evs1))) b \<noteq> None \<and>
        suspended (fst (hub_step send order (fst (hub_exec send order h (ev # evs1))) (Resume b))) b = None \<and>
        ui_clients (fst (hub_step send order (fst (hub_exec send order h (ev # evs1))) (Resume b))) =
          ui_clients (fst (hub_exec send order h (ev # evs1))) -
            (set dead \<union> failed_in b (snd (hub_exec send order h (ev # evs))))"
      by (simp only: hub_exec_Cons append_Cons) simp
    then show ?thesis by blast
  next
    case True
    from Cons.prems(2) obtain client tail where todo: "todo = client # tail"
      by (cases todo) auto
    obtain ok w where s: "send client packet (network h) = (ok, w)"
      by (cases "send client packet (network h)")
    note step = hub_step_resume [where send = send and order = order,
        OF Cons.prems(1) [unfolded todo] s]
    show ?thesis
    proof (cases "tail = []")
      case True
      with step have idle: "suspended ?h1 b = None"
        and a: "snd (hub_step send order h ev) = [(b, client, packet, ok)]"
        and cl: "ui_clients ?h1 = ui_clients h - set (if ok then dead else dead @ [client])"
        unfolding \<open>ev = Resume b\<close> by simp_all
      from hub_exec_idle [OF idle rest]
      have "attempts_of b (snd (hub_exec send order ?h1 evs)) = []" by blast
      then have "failed_in b (snd (hub_exec send order ?h1 evs)) = {}"
        by (rule failed_in_Nil)
      then have f: "failed_in b (snd (hub_exec send order h (ev # evs))) =
          (if ok then {} else {client})"
        unfolding hub_exec_Cons a by (simp add: failed_in_Cons)
      have "ev # evs = [] @ Resume b # evs \<and>
        suspended (fst (hub_exec send order h [])) b \<noteq> None \<and>
        suspended (fst (hub_step send order (fst (hub_exec send order h [])) ev)) b = None \<and>
        ui_clients (fst (hub_step send order (fst (hub_exec send order h [])) ev)) =
          ui_clients (fst (hub_exec send order h [])) -
            (set dead \<union> failed_in b (snd (hub_exec send order h (ev # evs))))"
        using Cons.prems(1) idle cl \<open>ev = Resume b\<close> unfolding f
        by (auto simp del: hub_step.simps)
      then show ?thesis unfolding \<open>ev = Resume b\<close> by blast
    next
      case False
      with step have
        susp: "suspended ?h1 b = Some (packet, tail, if ok then dead else dead @ [client])"
        and a: "snd (hub_step send order h ev) = [(b, client, packet, ok)]"
        unfolding \<open>ev = Resume b\<close> by simp_all
      from Cons.IH [OF susp False rest ret]
      obtain evs1 evs2 where split: "evs = evs1 @ Resume b # evs2"
        and before: "suspended (fst (hub_exec send order ?h1 evs1)) b \<noteq> None"
        and after: "suspended (fst (hub_step send order (fst (hub_exec send order ?h1 evs1)) (Resume b))) b = None"
        and gone: "ui_clients (fst (hub_step send order (fst (hub_exec send order ?h1 evs1)) (Resume b))) =
           ui_clients (fst (hub_exec send order ?h1 evs1)) -
             (set (if ok then dead else dead @ [client]) \<union>
              failed_in b (snd (hub_exec send order ?h1 evs)))"
        by blast
      have "set (if ok then dead else dead @ [client]) \<union>
              failed_in b (snd (hub_exec send order ?h1 evs)) =
            set dead \<union> failed_in b (snd (hub_exec send order h (ev # evs)))"
        unfolding hub_exec_Cons a by (auto simp: failed_in_Cons)
      with split before after gone
      have "ev # evs = (ev # evs1) @ Resume b # evs2 \<and>
        suspended (fst (hub_exec send order h (ev # evs1))) b \<noteq> None \<and>
        suspended (fst (hub_step send order (fst (hub_exec send order h (ev # evs1))) (Resume b))) b = None \<and>
        ui_clients (fst (hub_step send order (fst (hub_exec send order h (ev # evs1))) (Resume b))) =
          ui_clients (fst (hub_exec send order h (ev # evs1))) -
            (set dead \<union> failed_in b (snd (hub_exec send order h (ev # evs))))"
        by (simp only: hub_exec_Cons append_Cons) simp
      then show ?thesis by blast
    qed
  qed
qed

subsection \<open>The publish of one frame\<close>

lemma publish_empty:
  assumes "order (ui_clients h1) = []" and "suspended h1 b = None"
    and "\<forall>q. Message b q \<notin> set evs"
  shows "attempts_of b (snd (hub_exec send order h1 (Message b packet # evs))) = []"
proof -
  from assms(1) have "hub_step send order h1 (Message b packet) = (h1, [])" by simp
  then show ?thesis
    unfolding hub_exec_Cons using hub_exec_idle [OF assms(2,3)] by (simp add: attempts_of_def)
qed

lemma publish_started:
  assumes "order (ui_clients h1) \<noteq> []" and "suspended h1 b = None"
  shows "suspended (fst (hub_step send order h1 (Message b packet))) b =
           Some (packet, order (ui_clients h1), [])"
    and "snd (hub_step send order h1 (Message b packet)) = []"
    and "ui_clients (fst (hub_step send order h1 (Message b packet))) = ui_clients h1"
  using assms by simp_all

lemma all_same_packet:
  assumes "map f xs = map (\<lambda>c. p) ys"
  shows "\<forall>a \<in> set xs. f a = p"
proof
  fix a assume "a \<in> set xs"
  then have "f a \<in> set (map f xs)" by simp
  then have "f a \<in> set (map (\<lambda>c. p) ys)" by (simp only: assms)
  then show "f a = p" by auto
qed

text \<open>
  Claim C4, as the code has it.  A message arrives for handler \<open>b\<close> in the state
  \<open>h\<close> of the hub; the steps \<open>evs\<close> follow, in which the other handlers connect,
  disconnect and broadcast as the schedule has it and handler \<open>b\<close> receives no
  further message, and at their end handler \<open>b\<close> has left its loop.  Then:

  \<^item> the clients that are in the set when the message arrives, and no others, are
    attempted, exactly once each and with the packet of the message, whichever
    attempts fail and whatever else happens meanwhile;

  \<^item> unless the set was empty, the step of \<open>evs\<close> in which the handler leaves its
    loop removes from the set exactly the clients whose attempt failed in this
    publish;

  \<^item> such a client is not in the set at the end, unless it has connected again;

  \<^item> a client that has disconnected before the message arrives and has not
    connected since is not attempted.
\<close>

theorem publish_interleaved:
  fixes send :: "'c \<Rightarrow> 'p \<Rightarrow> 'w \<Rightarrow> bool \<times> 'w" and h :: "('c, 'p, 'w) hub"
  assumes ord: "\<forall>S. finite S \<longrightarrow> set (order S) = S \<and> distinct (order S)"
    and fin: "finite (ui_clients h)"
    and idle: "suspended h b = None"
    and once: "\<forall>q. Message b q \<notin> set evs"
    and returned: "suspended (fst (hub_exec send order h (Message b packet # evs))) b = None"
  shows "(let h' = fst (hub_exec send order h (Message b packet # evs));
              trace = snd (hub_exec send order h (Message b packet # evs));
              att = attempts_of b trace
          in distinct (map fst att) \<and> set (map fst att) = ui_clients h \<and>
             (\<forall>a \<in> set att. fst (snd a) = packet) \<and>
             (ui_clients h = {} \<or>
              (\<exists>evs1 evs2. evs = evs1 @ Resume b # evs2 \<and>
                 (let h2 = fst (hub_exec send order h (Message b packet # evs1));
                      h3 = fst (hub_step send order h2 (Resume b))
                  in suspended h2 b \<noteq> None \<and> suspended h3 b = None \<and>
                     ui_clients h3 = ui_clients h2 - failed_in b trace))) \<and>
             (\<forall>c \<in> failed_in b trace. Connect c \<notin> set evs \<longrightarrow> c \<notin> ui_clients h') \<and>
             (\<forall>c h0 pre. h = fst (hub_exec send order h0 (Disconnect c # pre)) \<and>
                         Connect c \<notin> set pre \<longrightarrow> c \<notin> fst ` set att))"
proof -
  let ?hm = "fst (hub_step send order h (Message b packet))"
  let ?run = "hub_exec send order h (Message b packet # evs)"
  let ?att = "attempts_of b (snd ?run)"
  from ord fin have oS: "set (order (ui_clients h)) = ui_clients h"
    and dS: "distinct (order (ui_clients h))" by blast+
  have prefix: "fst (hub_exec send order h (Message b packet # xs)) =
      fst (hub_exec send order ?hm xs)" for xs
    by (simp only: hub_exec_Cons)
  have main: "distinct (map fst ?att) \<and> set (map fst ?att) = ui_clients h \<and>
      (\<forall>a \<in> set ?att. fst (snd a) = packet) \<and>
      (ui_clients h = {} \<or>
        (\<exists>evs1 evs2. evs = evs1 @ Resume b # evs2 \<and>
           suspended (fst (hub_exec send order h (Message b packet # evs1))) b \<noteq> None \<and>
           suspended (fst (hub_step send order
             (fst (hub_exec send order h (Message b packet # evs1))) (Resume b))) b = None \<and>
           ui_clients (fst (hub_step send order
             (fst (hub_exec send order h (Message b packet # evs1))) (Resume b))) =
             ui_clients (fst (hub_exec send order h (Message b packet # evs1))) -
               failed_in b (snd ?run))) \<and>
      (\<forall>c \<in> failed_in b (snd ?run). Connect c \<notin> set evs \<longrightarrow> c \<notin> ui_clients (fst ?run))"
  proof (cases "order (ui_clients h) = []")
    case True
    from publish_empty [where order = order and send = send and packet = packet,
        OF True idle once]
    have e: "?att = []" .
    then have "failed_in b (snd ?run) = {}" by (rule failed_in_Nil)
    moreover from True oS have "ui_clients h = {}" by simp
    ultimately show ?thesis using e by simp
  next
    case False
    note started = publish_started [where order = order and send = send and packet = packet,
        OF False idle]
    from returned have ret: "suspended (fst (hub_exec send order ?hm evs)) b = None"
      by (simp only: prefix)
    have att': "?att = attempts_of b (snd (hub_exec send order ?hm evs))"
      unfolding hub_exec_Cons using started(2) by (simp add: attempts_of_def)
    then have failed: "failed_in b (snd ?run) = failed_in b (snd (hub_exec send order ?hm evs))"
      by (simp add: failed_in_def)
    from publish_attempts [OF started(1) False once ret]
    have pairs: "map (\<lambda>a. (fst a, fst (snd a))) ?att =
        map (\<lambda>c. (c, packet)) (order (ui_clients h))"
      unfolding att' .
    then have "map fst (map (\<lambda>a. (fst a, fst (snd a))) ?att) =
        map fst (map (\<lambda>c. (c, packet)) (order (ui_clients h)))" by (rule arg_cong)
    then have names: "map fst ?att = order (ui_clients h)" by (simp add: comp_def)
    from pairs have "map snd (map (\<lambda>a. (fst a, fst (snd a))) ?att) =
        map snd (map (\<lambda>c. (c, packet)) (order (ui_clients h)))" by (rule arg_cong)
    then have "map (\<lambda>a. fst (snd a)) ?att = map (\<lambda>c. packet) (order (ui_clients h))"
      by (simp add: comp_def)
    then have packets: "\<forall>a \<in> set ?att. fst (snd a) = packet"
      by (rule all_same_packet)
    from publish_returns [OF started(1) False once ret]
    obtain evs1 evs2 where split: "evs = evs1 @ Resume b # evs2"
      and before: "suspended (fst (hub_exec send order ?hm evs1)) b \<noteq> None"
      and after: "suspended (fst (hub_step send order (fst (hub_exec send order ?hm evs1)) (Resume b))) b = None"
      and gone: "ui_clients (fst (hub_step send order (fst (hub_exec send order ?hm evs1)) (Resume b))) =
         ui_clients (fst (hub_exec send order ?hm evs1)) -
           failed_in b (snd (hub_exec send order ?hm evs))"
      by auto
    let ?h3 = "fst (hub_step send order (fst (hub_exec send order ?hm evs1)) (Resume b))"
    have final: "fst ?run = fst (hub_exec send order ?h3 evs2)"
      unfolding prefix split by (simp only: hub_exec_append hub_exec_Cons)
    have stays: "\<forall>c \<in> failed_in b (snd ?run). Connect c \<notin> set evs \<longrightarrow> c \<notin> ui_clients (fst ?run)"
    proof (intro ballI impI)
      fix c assume c: "c \<in> failed_in b (snd ?run)" and "Connect c \<notin> set evs"
      then have "Connect c \<notin> set evs2" unfolding split by simp
      moreover from c gone failed have "c \<notin> ui_clients ?h3" by simp
      ultimately show "c \<notin> ui_clients (fst ?run)"
        unfolding final by (intro hub_exec_clients)
    qed
    have "\<exists>evs1 evs2. evs = evs1 @ Resume b # evs2 \<and>
           suspended (fst (hub_exec send order h (Message b packet # evs1))) b \<noteq> None \<and>
           suspended (fst (hub_step send order
             (fst (hub_exec send order h (Message b packet # evs1))) (Resume b))) b = None \<and>
           ui_clients (fst (hub_step send order
             (fst (hub_exec send order h (Message b packet # evs1))) (Resume b))) =
             ui_clients (fst (hub_exec send order h (Message b packet # evs1))) -
               failed_in b (snd ?run)"
      unfolding prefix failed using split before after gone by blast
    with names dS oS packets stays show ?thesis by simp
  qed
  have left: "\<forall>c h0 pre. h = fst (hub_exec send order h0 (Disconnect c # pre)) \<and>
      Connect c \<notin> set pre \<longrightarrow> c \<notin> fst ` set ?att"
  proof (intro allI impI)
    fix c :: 'c and h0 :: "('c, 'p, 'w) hub" and pre :: "('c, 'p) hub_event list"
    assume a: "h = fst (hub_exec send order h0 (Disconnect c # pre)) \<and> Connect c \<notin> set pre"
    let ?hd = "fst (hub_step send order h0 (Disconnect c))"
    have "c \<notin> ui_clients ?hd" by (rule hub_step_disconnect)
    moreover from a have "Connect c \<notin> set pre" by simp
    ultimately have "c \<notin> ui_clients (fst (hub_exec send order ?hd pre))"
      by (rule hub_exec_clients)
    moreover from a have "h = fst (hub_exec send order ?hd pre)"
      by (simp only: hub_exec_Cons)
    ultimately have "c \<notin> ui_clients h" by simp
    with main show "c \<notin> fst ` set ?att" by auto
  qed
  from main left show ?thesis unfolding Let_def by blast
qed

subsection \<open>Three schedules\<close>

lemma sorted_list_12: "sorted_list_of_set {1, 2 :: nat} = [1, 2]"
proof -
  have "{1, 2 :: nat} = set [1, 2]" by simp
  then show ?thesis by (simp only: sorted_list_of_set_sort_remdups) simp
qed

text \<open>
  Client 3 disconnects; then a message arrives, and client 4 connects while the
  handler awaits its second delivery, which fails.
\<close>

lemma sample_disconnect:
  "fst (hub_exec (send_except 2) sorted_list_of_set (idle_hub {1, 2, 3}) (Disconnect 3 # [])) =
     idle_hub {1, 2}"
proof -
  have "{1, 2, 3} - {3 :: nat} = {1, 2}" by auto
  then show ?thesis by (simp add: idle_hub_def unregister_def)
qed

lemma sample_schedule:
  "hub_exec (send_except 2) sorted_list_of_set (idle_hub {1, 2})
     (Message 0 ''f'' # [Resume 0, Connect 4, Resume 0]) =
   (\<lparr>ui_clients = {1, 4}, network = 2, suspended = Map.empty\<rparr>,
    [(0, 1, ''f'', True), (0, 2, ''f'', False)])"
proof -
  have "insert 4 {1, 2} - {2 :: nat} = {1, 4}" by auto
  then show ?thesis
    by (simp add: idle_hub_def send_except_def register_def unregister_def sorted_list_12
        numeral_2_eq_2)
qed

theorem publish_interleaved_witness:
  "finite (ui_clients (idle_hub {1, 2})) \<and> suspended (idle_hub {1, 2}) 0 = None \<and>
   (\<forall>q. Message 0 q \<notin> set [Resume 0, Connect (4 :: nat), Resume 0]) \<and>
   suspended (fst (hub_exec (send_except 2) sorted_list_of_set (idle_hub {1, 2})
      (Message 0 ''f'' # [Resume 0, Connect 4, Resume 0]))) 0 = None \<and>
   idle_hub {1, 2} =
     fst (hub_exec (send_except 2) sorted_list_of_set (idle_hub {1, 2, 3}) (Disconnect 3 # [])) \<and>
   snd (hub_exec (send_except 2) sorted_list_of_set (idle_hub {1, 2})
      (Message 0 ''f'' # [Resume 0, Connect 4, Resume 0])) =
     [(0, 1, ''f'', True), (0, 2, ''f'', False)] \<and>
   2 \<notin> ui_clients (fst (hub_exec (send_except 2) sorted_list_of_set (idle_hub {1, 2})
      (Message 0 ''f'' # [Resume 0, Connect 4, Resume 0]))) \<and>
   3 \<notin> fst ` set (attempts_of 0 (snd (hub_exec (send_except 2) sorted_list_of_set
      (idle_hub {1, 2}) (Message 0 ''f'' # [Resume 0, Connect 4, Resume 0]))))"
proof -
  let ?run = "hub_exec (send_except 2) sorted_list_of_set (idle_hub {1, 2})
      (Message 0 ''f'' # [Resume 0, Connect 4, Resume 0])"
  note run = sample_schedule
  have ord: "\<forall>S :: nat set. finite S \<longrightarrow>
      set (sorted_list_of_set S) = S \<and> distinct (sorted_list_of_set S)"
    by simp
  have fin: "finite (ui_clients (idle_hub {1, 2}))" by (simp add: idle_hub_def)
  have idle: "suspended (idle_hub {1, 2}) 0 = None" by (simp add: idle_hub_def)
  have once: "\<forall>q. Message 0 q \<notin> set [Resume 0, Connect (4 :: nat), Resume 0]"
    by simp
  have returned: "suspended (fst ?run) 0 = None" unfolding run by simp
  have failed: "2 \<in> failed_in 0 (snd ?run)"
    unfolding run by (simp add: failed_in_def attempts_of_def)
  have quiet: "Connect 2 \<notin> set [Resume 0, Connect (4 :: nat), Resume 0]" by simp
  have left: "idle_hub {1, 2} =
      fst (hub_exec (send_except 2) sorted_list_of_set (idle_hub {1, 2, 3}) (Disconnect 3 # [])) \<and>
      Connect 3 \<notin> set []"
    using sample_disconnect by simp
  note inst = publish_interleaved [where send = "send_except 2" and order = sorted_list_of_set
      and h = "idle_hub {1, 2}" and b = 0 and packet = "''f''"
      and evs = "[Resume 0, Connect 4, Resume 0]", OF ord fin idle once returned,
      unfolded Let_def]
  from inst failed quiet
  have "2 \<notin> ui_clients (fst ?run)" by blast
  moreover from inst left
  have "3 \<notin> fst ` set (attempts_of 0 (snd ?run))" by blast
  moreover have "snd ?run = [(0, 1, ''f'', True), (0, 2, ''f'', False)]"
    unfolding run by simp
  ultimately show ?thesis using fin idle once returned left by blast
qed

text \<open>
  The claim says that a client whose delivery failed receives no later frame.  With
  two handlers in their loops at once it does: the delivery of the first packet to
  client 1 fails; while the first handler awaits its delivery to client 2, a second
  message arrives, the copy its handler takes of the set still holds client 1, and
  the second packet is delivered to it.  Client 1 leaves the set only when the
  first handler leaves its loop.
\<close>

theorem failed_client_served_by_overlapping_publish:
  "hub_exec send_after_first sorted_list_of_set (idle_hub {1, 2})
     [Message 0 ''a'', Resume 0, Message 1 ''b'', Resume 1, Resume 1, Resume 0] =
   (\<lparr>ui_clients = {2}, network = 4, suspended = Map.empty\<rparr>,
    [(0, 1, ''a'', False), (1, 1, ''b'', True), (1, 2, ''b'', True), (0, 2, ''a'', True)])"
proof -
  have "{1, 2} - {1 :: nat} = {2}" by auto
  then show ?thesis
    by (simp add: idle_hub_def send_after_first_def unregister_def sorted_list_12
        numeral_2_eq_2 numeral_3_eq_3 eval_nat_numeral)
qed

text \<open>
  A client that disconnects while a handler is suspended in its loop is still
  attempted by that handler, which runs over its copy of the set.
\<close>

lemma disconnected_client_in_copy:
  "snd (hub_exec (send_except 0) sorted_list_of_set (idle_hub {1, 2})
     [Message 0 ''a'', Disconnect 2, Resume 0, Resume 0]) =
   [(0, 1, ''a'', True), (0, 2, ''a'', True)]"
  by (simp add: idle_hub_def send_except_def unregister_def sorted_list_12)


section \<open>The recording session\<close>

lemma csv_row_dict: "csv_row (JObj kvs) = Inr (frame_record (JObj kvs))"
  by (simp add: csv_row_def column_def)

lemma has_timestamp_dict:
  "has_timestamp f \<Longrightarrow> \<exists>kvs. f = JObj kvs \<and> kvs \<noteq> []"
  by (cases f) auto

lemma csv_append_writes:
  assumes "recording st" and "csv_writer st = Some path"
    and "files st path = Some rows" and "has_timestamp f"
  shows "recording (csv_append st f) \<and> csv_writer (csv_append st f) = Some path \<and>
         files (csv_append st f) path = Some (rows @ [frame_record f])"
proof -
  from has_timestamp_dict [OF assms(4)] obtain kvs where f: "f = JObj kvs" and "kvs \<noteq> []"
    by blast
  with assms(1-3) show ?thesis
    by (simp add: csv_append_def csv_row_dict)
qed

lemma fold_csv_append:
  assumes "recording st" and "csv_writer st = Some path"
    and "files st path = Some rows" and "list_all has_timestamp frames"
  shows "recording (fold (\<lambda>f s. csv_append s f) frames st) \<and>
         csv_writer (fold (\<lambda>f s. csv_append s f) frames st) = Some path \<and>
         files (fold (\<lambda>f s. csv_append s f) frames st) path =
           Some (rows @ map frame_record frames)"
  using assms
proof (induction frames arbitrary: st rows)
  case Nil
  then show ?case by simp
next
  case (Cons f frames)
  from Cons.prems have "has_timestamp f" and rest: "list_all has_timestamp frames" by simp_all
  with Cons.prems(1-3) have
    "recording (csv_append st f)" "csv_writer (csv_append st f) = Some path"
    "files (csv_append st f) path = Some (rows @ [frame_record f])"
    using csv_append_writes by blast+
  from Cons.IH [OF this rest] show ?case by simp
qed

lemma start_recording_state:
  assumes "can_open (session_path payload today ts)"
  shows "snd (start_recording can_open payload today ts started st) =
           Inr (session_path payload today ts)"
    and "recording (fst (start_recording can_open payload today ts started st))"
    and "csv_writer (fst (start_recording can_open payload today ts started st)) =
           Some (session_path payload today ts)"
    and "files (fst (start_recording can_open payload today ts started st))
           (session_path payload today ts) = Some [csv_header]"
  using assms by (simp_all add: start_recording_def Let_def)

lemma start_recording_refused:
  assumes "\<not> can_open (session_path payload today ts)"
  shows "start_recording can_open payload today ts started st = (st, Inl OSError)"
  using assms by (simp add: start_recording_def Let_def)

lemma frame_record_timestamp:
  "has_timestamp f \<Longrightarrow> length (frame_record f) = 12 \<and> frame_record f ! 2 = timestamp_of f"
  by (cases f) simp_all

text \<open>
  Claim C5.  When the file of the session can be opened, the start request returns
  its path, and a session that is started, receives \<open>N\<close> frames (dictionaries with
  a time stamp) and is stopped leaves in that file the header followed by \<open>N\<close>
  records in the order of the frames.  Every record has the twelve columns of the
  header (date, time, time stamp, the six axis values, magnitude, mean magnitude,
  RMS magnitude, with the default 0 where the frame lacks the key), and its
  third column is the time stamp of its frame.
\<close>

theorem recording_session_rows:
  assumes "can_open (session_path payload today ts)"
    and "list_all has_timestamp frames"
  shows "(let path = session_path payload today ts;
              st' = record_session can_open payload today ts started frames st
          in snd (start_recording can_open payload today ts started st) = Inr path \<and>
             files st' path = Some (csv_header # map frame_record frames) \<and>
             length (csv_header # map frame_record frames) = 1 + length frames \<and>
             (\<forall>i < length frames.
                length (map frame_record frames ! i) = length csv_header \<and>
                map frame_record frames ! i ! 2 = timestamp_of (frames ! i)) \<and>
             csv_header ! 2 = JStr ''timestamp_ms'' \<and>
             \<not> recording st' \<and> csv_file st' = None)"
proof -
  let ?s1 = "fst (start_recording can_open payload today ts started st)"
  let ?path = "session_path payload today ts"
  note started = start_recording_state [where can_open = can_open and payload = payload
      and today = today and ts = ts and started = started and st = st, OF assms(1)]
  from fold_csv_append [OF started(2,3,4) assms(2)]
  have "files (fold (\<lambda>f s. csv_append s f) frames ?s1) ?path =
      Some ([csv_header] @ map frame_record frames)" by simp
  then have content: "files (record_session can_open payload today ts started frames st) ?path =
      Some (csv_header # map frame_record frames)"
    by (simp add: record_session_def stop_recording_def)
  have rows: "\<forall>i < length frames.
      length (map frame_record frames ! i) = length csv_header \<and>
      map frame_record frames ! i ! 2 = timestamp_of (frames ! i)"
  proof (intro allI impI)
    fix i assume i: "i < length frames"
    with assms(2) have "has_timestamp (frames ! i)" by (simp add: list_all_length)
    from frame_record_timestamp [OF this] i
    show "length (map frame_record frames ! i) = length csv_header \<and>
          map frame_record frames ! i ! 2 = timestamp_of (frames ! i)"
      by (simp add: csv_header_def)
  qed
  have stop: "\<not> recording (record_session can_open payload today ts started frames st) \<and>
      csv_file (record_session can_open payload today ts started frames st) = None"
    by (simp add: record_session_def stop_recording_def)
  from started(1) content rows stop show ?thesis
    by (simp add: Let_def csv_header_def)
qed

lemma sample_session_path:
  "session_path [(''reading_type'', ''walk 1''), (''date'', ''2024-01-01'')]
     ''2024-02-02'' ''20240202_101500'' = ''../recordings/2024-01-01_walk_1_20240202_101500.csv''"
  by (simp add: session_path_def Let_def safe_type_def isalnum_def path_join_def
      RECORDINGS_DIR_def)

theorem recording_session_rows_witness:
  "plain_directory (session_path [(''reading_type'', ''walk 1''), (''date'', ''2024-01-01'')]
     ''2024-02-02'' ''20240202_101500'') \<and>
   list_all has_timestamp
     [JObj [(''timestamp_ms'', JInt 5), (''ax_g'', JFloat 1)],
      JObj [(''timestamp_ms'', JInt 55), (''mean_magnitude'', JFloat 1)]] \<and>
   files (record_session plain_directory
            [(''reading_type'', ''walk 1''), (''date'', ''2024-01-01'')]
            ''2024-02-02'' ''20240202_101500'' ''2024-02-02T10:15:00''
            [JObj [(''timestamp_ms'', JInt 5), (''ax_g'', JFloat 1)],
             JObj [(''timestamp_ms'', JInt 55), (''mean_magnitude'', JFloat 1)]]
            \<lparr>recording = False, current_session = [], csv_file = None, csv_writer = None,
             files = Map.empty\<rparr>)
     ''../recordings/2024-01-01_walk_1_20240202_101500.csv'' =
     Some [csv_header,
           [JStr [], JStr [], JInt 5, JFloat 1, JInt 0, JInt 0, JInt 0, JInt 0, JInt 0,
            JInt 0, JInt 0, JInt 0],
           [JStr [], JStr [], JInt 55, JInt 0, JInt 0, JInt 0, JInt 0, JInt 0, JInt 0,
            JInt 0, JFloat 1, JInt 0]]"
proof -
  have ts: "list_all has_timestamp
     [JObj [(''timestamp_ms'', JInt 5), (''ax_g'', JFloat 1)],
      JObj [(''timestamp_ms'', JInt 55), (''mean_magnitude'', JFloat 1)]]"
    by simp
  have opens: "plain_directory
      (session_path [(''reading_type'', ''walk 1''), (''date'', ''2024-01-01'')]
         ''2024-02-02'' ''20240202_101500'')"
    unfolding sample_session_path by (simp add: plain_directory_def)
  from recording_session_rows [where can_open = plain_directory
      and payload = "[(''reading_type'', ''walk 1''), (''date'', ''2024-01-01'')]"
      and today = "''2024-02-02''" and ts = "''20240202_101500''"
      and started = "''2024-02-02T10:15:00''"
      and st = "\<lparr>recording = False, current_session = [], csv_file = None, csv_writer = None,
             files = Map.empty\<rparr>", OF opens ts]
  have "files (record_session plain_directory
            [(''reading_type'', ''walk 1''), (''date'', ''2024-01-01'')]
            ''2024-02-02'' ''20240202_101500'' ''2024-02-02T10:15:00''
            [JObj [(''timestamp_ms'', JInt 5), (''ax_g'', JFloat 1)],
             JObj [(''timestamp_ms'', JInt 55), (''mean_magnitude'', JFloat 1)]]
            \<lparr>recording = False, current_session = [], csv_file = None, csv_writer = None,
             files = Map.empty\<rparr>)
     ''../recordings/2024-01-01_walk_1_20240202_101500.csv'' =
     Some (csv_header # map frame_record
           [JObj [(''timestamp_ms'', JInt 5), (''ax_g'', JFloat 1)],
            JObj [(''timestamp_ms'', JInt 55), (''mean_magnitude'', JFloat 1)]])"
    unfolding sample_session_path Let_def by blast
  then show ?thesis using ts opens by (simp add: column_def)
qed

text \<open>
  When the file cannot be opened the start request fails and the recorder stays as
  it was: frames that arrive while it is idle are not written anywhere.  A date with
  slashes makes such a path: it names a file in a subdirectory of the recordings.
\<close>

lemma csv_append_idle: "\<not> recording st \<Longrightarrow> csv_append st f = st"
  by (simp add: csv_append_def)

lemma failed_start_records_nothing:
  assumes "\<not> can_open (session_path payload today ts)" and "\<not> recording st"
  shows "snd (start_recording can_open payload today ts started st) = Inl OSError \<and>
         files (record_session can_open payload today ts started frames st) = files st"
proof -
  have "fold (\<lambda>f s. csv_append s f) frames st = st"
    using assms(2) by (induction frames) (simp_all add: csv_append_idle)
  then show ?thesis
    using assms(1)
    by (simp add: start_recording_refused record_session_def stop_recording_def)
qed

lemma slash_date_is_refused:
  "session_path [(''date'', ''2024/01/01'')] ''2024-02-02'' ''20240202_101500'' =
     ''../recordings/2024/01/01_unknown_20240202_101500.csv'' \<and>
   \<not> plain_directory (session_path [(''date'', ''2024/01/01'')] ''2024-02-02'' ''20240202_101500'')"
  by (simp add: session_path_def Let_def safe_type_def isalnum_def path_join_def
      RECORDINGS_DIR_def plain_directory_def)


end
